theory Spec2Isabelle
  imports Complex_Main "HOL-Library.AList" "HOL-Library.Sublist"
begin

section \<open>Python values\<close>

text \<open>
  What a \<open>raise\<close> carries. \<open>TypeError\<close>, \<open>ValueError\<close>, \<open>ZeroDivisionError\<close> and
  \<open>AttributeError\<close> are the built-in classes; \<open>LibraryError\<close> is any other subclass of
  \<open>Exception\<close>, as the downloader raises them, with its message. \<open>KeyboardInterrupt\<close> and
  \<open>SystemExit\<close> derive from \<open>BaseException\<close> only: \<open>except Exception\<close> lets them pass.
\<close>

datatype py_exception =
    TypeError
  | ValueError
  | ZeroDivisionError
  | AttributeError
  | LibraryError string
  | KeyboardInterrupt
  | SystemExit int

fun is_Exception :: "py_exception \<Rightarrow> bool" where
  "is_Exception KeyboardInterrupt = False"
| "is_Exception (SystemExit code) = False"
| "is_Exception e = True"

text \<open>
  The program is dynamically typed: the option dictionary handed to the downloader, the
  event dictionaries handed to the progress hook and the arguments of the logging calls
  hold values of several Python types. One datatype covers the values that occur.
  A dictionary is an association list with distinct string keys, in insertion order.
  A float is kept as the rational it denotes; no rounding is modelled.
\<close>

datatype pyval =
    PNone
  | PBool bool
  | PInt int
  | PFloat rat
  | PStr string
  | PList "pyval list"
  | PDict "(string \<times> pyval) list"
  | PFunc string
  | PExc py_exception

type_synonym pydict = "(string \<times> pyval) list"

text \<open>\<open>d.get(k)\<close> and \<open>d[k] = v\<close> on a dictionary; \<open>k in d\<close> is \<open>dict_get d k \<noteq> None\<close>.\<close>

definition dict_get :: "pydict \<Rightarrow> string \<Rightarrow> pyval option" where
  "dict_get d k = map_of d k"

definition dict_set :: "pydict \<Rightarrow> string \<Rightarrow> pyval \<Rightarrow> pydict" where
  "dict_set d k v = AList.update k v d"

text \<open>Truth value of an \<open>Optional[str]\<close>: \<open>None\<close> and the empty string are false.\<close>

fun truthy_str :: "string option \<Rightarrow> bool" where
  "truthy_str None = False"
| "truthy_str (Some s) = (s \<noteq> [])"

section \<open>Effects\<close>

text \<open>
  What the program does beyond returning values is recorded as a list of events, in the
  order the calls are made: writes to standard output, calls of the \<open>logging\<close> module
  (the function called, the format string and its arguments, as the source passes them),
  calls into the downloader, and the return of the two steps that come before it.
  The text of the progress line is kept as the three values it interpolates.
\<close>

datatype event =
    Stdout_write rat rat pyval
  | Stdout_flush
  | Logging string string "pyval list"
  | Ret_parse_args
  | Call_basicConfig string
  | Ret_build_ytdl_opts pydict
  | Call_YoutubeDL pydict
  | Call_extract_info string
  | Call_prepare_filename pyval

section \<open>\<open>progress_hook\<close>\<close>

fun truthy :: "pyval \<Rightarrow> bool" where
  "truthy PNone = False"
| "truthy (PBool b) = b"
| "truthy (PInt i) = (i \<noteq> 0)"
| "truthy (PFloat r) = (r \<noteq> 0)"
| "truthy (PStr s) = (s \<noteq> [])"
| "truthy (PList xs) = (xs \<noteq> [])"
| "truthy (PDict d) = (d \<noteq> [])"
| "truthy (PFunc f) = True"
| "truthy (PExc e) = True"

text \<open>\<open>d.get(k, default)\<close>; \<open>d.get(k)\<close> is \<open>get_default d k PNone\<close>.\<close>

definition get_default :: "pydict \<Rightarrow> string \<Rightarrow> pyval \<Rightarrow> pyval" where
  "get_default d k dflt = (case dict_get d k of None \<Rightarrow> dflt | Some v \<Rightarrow> v)"

text \<open>The numbers: \<open>bool\<close> is a subclass of \<open>int\<close>.\<close>

fun number :: "pyval \<Rightarrow> rat option" where
  "number (PBool b) = Some (if b then 1 else 0)"
| "number (PInt i) = Some (of_int i)"
| "number (PFloat r) = Some r"
| "number v = None"

text \<open>True division \<open>a / b\<close>: a \<open>TypeError\<close> unless both are numbers, a
  \<open>ZeroDivisionError\<close> when the divisor is zero.\<close>

definition truediv :: "pyval \<Rightarrow> pyval \<Rightarrow> py_exception + rat" where
  "truediv a b =
     (case number a of
        None \<Rightarrow> Inl TypeError
      | Some x \<Rightarrow>
          (case number b of
             None \<Rightarrow> Inl TypeError
           | Some y \<Rightarrow> if y = 0 then Inl ZeroDivisionError else Inr (x / y)))"

text \<open>Formatting with a fixed-point specification such as \<open>.0f\<close>: numbers only; a
  string gives a \<open>ValueError\<close>, any other value a \<open>TypeError\<close>.\<close>

fun format_f :: "pyval \<Rightarrow> py_exception + rat" where
  "format_f (PStr s) = Inl ValueError"
| "format_f v = (case number v of None \<Rightarrow> Inl TypeError | Some x \<Rightarrow> Inr x)"

text \<open>Membership in a set hashes the value: lists and dictionaries are unhashable.\<close>

fun hashable :: "pyval \<Rightarrow> bool" where
  "hashable (PList xs) = False"
| "hashable (PDict d) = False"
| "hashable v = True"

definition progress_hook :: "pydict \<Rightarrow> py_exception + event list" where
  "progress_hook d =
    (if get_default d ''status'' PNone = PStr ''downloading'' then
       (let total = (if truthy (get_default d ''total_bytes'' PNone)
                     then get_default d ''total_bytes'' PNone
                     else get_default d ''total_bytes_estimate'' PNone);
            downloaded = get_default d ''downloaded_bytes'' (PInt 0)
        in if truthy total then
             (case truediv downloaded total of
                Inl e \<Rightarrow> Inl e
              | Inr q \<Rightarrow>
                  (let pct = q * 100;
                       speed = get_default d ''speed'' (PInt 0);
                       eta = get_default d ''eta'' (PInt 0)
                   in case format_f speed of
                        Inl e \<Rightarrow> Inl e
                      | Inr sp \<Rightarrow> Inr [Stdout_write pct sp eta, Stdout_flush]))
           else Inr [])
     else if \<not> hashable (get_default d ''status'' PNone) then Inl TypeError
     else if get_default d ''status'' PNone = PStr ''finished''
             \<or> get_default d ''status'' PNone = PStr ''post_process'' then
       (if truthy (get_default d ''filename'' PNone)
        then Inr [Logging ''info'' ''Processed: %s'' [get_default d ''filename'' PNone]]
        else (case get_default d ''info_dict'' (PDict []) of
                PDict i \<Rightarrow>
                  (if truthy (get_default i ''_filename'' PNone)
                   then Inr [Logging ''info'' ''Processed: %s'' [get_default i ''_filename'' PNone]]
                   else Inr [])
              | v \<Rightarrow> Inl AttributeError))
     else Inr [])"

section \<open>\<open>build_ytdl_opts\<close>\<close>

definition postprocessors :: "pyval" where
  "postprocessors = PList
     [PDict [(''key'', PStr ''FFmpegVideoRemuxer''), (''preferedformat'', PStr ''mp4'')],
      PDict [(''key'', PStr ''FFmpegThumbnailsConvertor''), (''format'', PStr ''jpg'')],
      PDict [(''key'', PStr ''EmbedThumbnail''), (''already_have_thumbnail'', PBool True)],
      PDict [(''key'', PStr ''FFmpegMetadata'')]]"

text \<open>The dictionary display of lines 119 to 145, with the conditional \<open>paths\<close> entry.\<close>

definition base_opts :: "string option \<Rightarrow> string list \<Rightarrow> bool \<Rightarrow> pydict" where
  "base_opts output_dir langs quiet =
     [(''outtmpl'', PStr ''%(uploader)s - %(title)s.%(ext)s''),
      (''windowsfilenames'', PBool True)]
     @ (if truthy_str output_dir
        then [(''paths'', PDict [(''home'', PStr (the output_dir))])] else [])
     @ [(''format'', PStr ''bv*+ba/b''),
        (''merge_output_format'', PStr ''mp4''),
        (''writesubtitles'', PBool True),
        (''embedsubtitles'', PBool True),
        (''subtitleslangs'', PList (map PStr langs)),
        (''subtitlesformat'', PStr ''srt/best''),
        (''writethumbnail'', PBool True),
        (''embedthumbnail'', PBool True),
        (''retries'', PInt 10),
        (''fragment_retries'', PInt 10),
        (''continuedl'', PBool True),
        (''concurrent_fragment_downloads'', PInt 5),
        (''quiet'', PBool quiet),
        (''no_warnings'', PBool False),
        (''ignoreerrors'', PBool False),
        (''progress_hooks'', PList [PFunc ''progress_hook'']),
        (''postprocessors'', postprocessors)]"

definition build_ytdl_opts ::
  "string option \<Rightarrow> string option \<Rightarrow> string list \<Rightarrow> string option \<Rightarrow> bool \<Rightarrow> bool \<Rightarrow> bool \<Rightarrow>
   string option \<Rightarrow> bool \<Rightarrow> bool \<Rightarrow> pydict" where
  "build_ytdl_opts output_dir cookies_file langs ffmpeg_location quiet auto_sub no_playlist
     playlist_items write_infojson clean_infojson =
    (let ydl_opts = base_opts output_dir langs quiet;
         ydl_opts = (if truthy_str cookies_file
                     then dict_set ydl_opts ''cookiefile'' (PStr (the cookies_file))
                     else ydl_opts);
         ydl_opts = (if truthy_str ffmpeg_location
                     then dict_set ydl_opts ''ffmpeg_location'' (PStr (the ffmpeg_location))
                     else ydl_opts);
         ydl_opts = (if auto_sub then dict_set ydl_opts ''writeautomaticsub'' (PBool True)
                     else ydl_opts);
         ydl_opts = (if no_playlist then dict_set ydl_opts ''noplaylist'' (PBool True)
                     else ydl_opts);
         ydl_opts = (if truthy_str playlist_items
                     then dict_set ydl_opts ''playlist_items'' (PStr (the playlist_items))
                     else ydl_opts);
         ydl_opts = (if write_infojson
                     then (let ydl_opts = dict_set ydl_opts ''writeinfojson'' (PBool True)
                           in if clean_infojson
                              then dict_set ydl_opts ''clean_infojson'' (PBool True)
                              else ydl_opts)
                     else ydl_opts)
     in ydl_opts)"

section \<open>The parsed arguments\<close>

text \<open>
  The \<open>argparse.Namespace\<close>, one field per \<open>add_argument\<close> call. Two fields change their
  type on the way: \<open>urls\<close> is unset until the positional is consumed, and \<open>langs\<close> is the
  raw string until \<open>parse_args\<close> splits it.
\<close>

record ('u, 'l) namespace =
  urls :: 'u
  output_dir :: "string option"
  cookies :: "string option"
  langs :: 'l
  ffmpeg :: "string option"
  quiet :: bool
  log_level :: string
  auto_sub :: bool
  no_playlist :: bool
  playlist_items :: "string option"
  write_infojson :: bool
  clean_infojson :: bool

type_synonym args = "(string list, string list) namespace"

section \<open>The downloader library\<close>

text \<open>
  \<open>yt_dlp\<close> is not part of the program. It is a parameter: the constructor
  \<open>YoutubeDL(opts)\<close> gives the downloader object (a state of type \<open>'y\<close>), and each method
  call returns or raises and leaves a new state. The information dictionary that
  \<open>extract_info\<close> returns is a Python value (it may be \<open>None\<close>).
\<close>

datatype 'a outcome = Returns 'a | Raises py_exception

record 'y yt_dlp =
  YoutubeDL :: "pydict \<Rightarrow> 'y"
  extract_info :: "'y \<Rightarrow> string \<Rightarrow> pyval outcome \<times> 'y"
  prepare_filename :: "'y \<Rightarrow> pyval \<Rightarrow> string outcome \<times> 'y"

section \<open>\<open>download_videos\<close>\<close>

text \<open>The call of \<open>build_ytdl_opts\<close>, lines 194 to 207; \<open>isfile\<close> is \<open>os.path.isfile\<close> at
  that moment.\<close>

definition download_opts :: "(string \<Rightarrow> bool) \<Rightarrow> args \<Rightarrow> pydict" where
  "download_opts isfile a =
     build_ytdl_opts (output_dir a)
       (if truthy_str (cookies a) \<and> isfile (the (cookies a)) then cookies a else None)
       (langs a) (ffmpeg a) (quiet a) (auto_sub a) (no_playlist a) (playlist_items a)
       (write_infojson a) (clean_infojson a)"

text \<open>The dictionary logged at debug level, lines 209 to 227.\<close>

definition debug_keys :: "string list" where
  "debug_keys = [''format'', ''merge_output_format'', ''writesubtitles'', ''embedsubtitles'',
     ''subtitleslangs'', ''writethumbnail'', ''embedthumbnail'', ''retries'', ''continuedl'',
     ''concurrent_fragment_downloads'']"

definition debug_view :: "pydict \<Rightarrow> pyval" where
  "debug_view ydl_opts =
     PDict (concat (map (\<lambda>k. case dict_get ydl_opts k of None \<Rightarrow> [] | Some v \<Rightarrow> [(k, v)])
                        debug_keys))"

text \<open>
  The body of the \<open>try\<close>, lines 233 to 235, for one URL: the events, the exception that left
  the body if one did, and the downloader afterwards.
\<close>

definition try_download :: "'y yt_dlp \<Rightarrow> 'y \<Rightarrow> string \<Rightarrow> event list \<times> py_exception option \<times> 'y" where
  "try_download lib ydl url =
     (case extract_info lib ydl url of
        (Raises e, ydl1) \<Rightarrow> ([Call_extract_info url], Some e, ydl1)
      | (Returns info, ydl1) \<Rightarrow>
          (case prepare_filename lib ydl1 info of
             (Raises e, ydl2) \<Rightarrow>
               ([Call_extract_info url, Call_prepare_filename info], Some e, ydl2)
           | (Returns filepath, ydl2) \<Rightarrow>
               ([Call_extract_info url, Call_prepare_filename info,
                 Logging ''info'' ''Downloaded: %s'' [PStr filepath]], None, ydl2)))"

text \<open>
  The loop, lines 231 to 238. \<open>except Exception\<close> handles what \<open>is_Exception\<close> accepts and
  goes on with the next URL; any other exception leaves the loop and the function. The
  result is the final \<open>failed\<close> list, or the exception that propagates.
\<close>

fun download_loop ::
  "'y yt_dlp \<Rightarrow> 'y \<Rightarrow> string list \<Rightarrow> string list \<Rightarrow> event list \<times> (py_exception + string list)" where
  "download_loop lib ydl [] failed = ([], Inr failed)"
| "download_loop lib ydl (url # rest) failed =
     (case try_download lib ydl url of
        (evs, None, ydl1) \<Rightarrow>
          (case download_loop lib ydl1 rest failed of (evs1, r) \<Rightarrow> (evs @ evs1, r))
      | (evs, Some e, ydl1) \<Rightarrow>
          if is_Exception e then
            (case download_loop lib ydl1 rest (failed @ [url]) of
               (evs1, r) \<Rightarrow>
                 (evs @ [Logging ''exception'' ''Download failed: %s | URL: %s'' [PExc e, PStr url]]
                      @ evs1, r))
          else (evs, Inl e))"

fun join :: "string \<Rightarrow> string list \<Rightarrow> string" where
  "join sep [] = []"
| "join sep [x] = x"
| "join sep (x # y # ys) = x @ sep @ join sep (y # ys)"

definition download_videos ::
  "'y yt_dlp \<Rightarrow> (string \<Rightarrow> bool) \<Rightarrow> string list \<Rightarrow> args \<Rightarrow> event list \<times> (py_exception + string list)" where
  "download_videos lib isfile us a =
     (let ydl_opts = download_opts isfile a;
          before = [Ret_build_ytdl_opts ydl_opts,
                    Logging ''debug'' ''ydl_opts: %s'' [debug_view ydl_opts],
                    Call_YoutubeDL ydl_opts]
      in case download_loop lib (YoutubeDL lib ydl_opts) us [] of
           (evs, Inl e) \<Rightarrow> (before @ evs, Inl e)
         | (evs, Inr failed) \<Rightarrow>
             (before @ evs @
                (if failed \<noteq> []
                 then [Logging ''warning''
                         (''The following %d URLs failed to download:'' @ [CHR 0x0A] @ ''%s'')
                         [PInt (int (length failed)), PStr (join [CHR 0x0A] failed)]]
                 else []),
              Inr failed))"

section \<open>The argument parser\<close>

text \<open>
  \<open>argparse\<close> is the standard library, not the program; what the program fixes is the
  parser's configuration, lines 265 to 316. The model below follows
  \<open>ArgumentParser.parse_args\<close> of CPython 3.11 for that configuration: every argument
  string is first classified (an option, a positional, or the \<open>--\<close> separator), then
  positionals and options are consumed alternately, and at the end a missing required
  argument or a left-over string is an error. An error exits with status 2, \<open>--help\<close>
  with status 0.
\<close>

text \<open>One constructor per \<open>add_argument\<close> call with option strings, and the help action
  the parser adds by itself.\<close>

datatype dest =
    Help
  | Output_dir
  | Cookies
  | Langs
  | Ffmpeg
  | Quiet
  | Log_level
  | Auto_sub
  | No_playlist
  | Playlist_items
  | Write_infojson
  | Clean_infojson

definition option_string_actions :: "(string \<times> dest) list" where
  "option_string_actions =
     [(''-h'', Help), (''--help'', Help),
      (''-o'', Output_dir), (''--output-dir'', Output_dir),
      (''-c'', Cookies), (''--cookies'', Cookies),
      (''-l'', Langs), (''--langs'', Langs),
      (''--ffmpeg'', Ffmpeg),
      (''-q'', Quiet), (''--quiet'', Quiet),
      (''--log-level'', Log_level),
      (''--auto-sub'', Auto_sub),
      (''--no-playlist'', No_playlist),
      (''--playlist-items'', Playlist_items),
      (''--write-infojson'', Write_infojson),
      (''--clean-infojson'', Clean_infojson)]"

text \<open>The \<open>store\<close> actions take one argument string; \<open>store_true\<close> and help take none.\<close>

fun takes_argument :: "dest \<Rightarrow> bool" where
  "takes_argument Output_dir = True"
| "takes_argument Cookies = True"
| "takes_argument Langs = True"
| "takes_argument Ffmpeg = True"
| "takes_argument Log_level = True"
| "takes_argument Playlist_items = True"
| "takes_argument d = False"

definition log_level_choices :: "string list" where
  "log_level_choices = [''DEBUG'', ''INFO'', ''WARNING'', ''ERROR'']"

text \<open>
  The class of an argument string: \<open>Arg\<close> a positional, \<open>Dashes\<close> the first \<open>--\<close>, and
  \<open>Opt action option_string sep explicit_arg\<close> an option: the action it names (none when no
  option matches), the option string, whether an \<open>=\<close> separated the explicit argument,
  and the explicit argument when the string carries one.
\<close>

datatype cls = Arg | Dashes | Opt "dest option" string bool "string option"

fun is_Opt :: "cls \<Rightarrow> bool" where
  "is_Opt (Opt a os sep ex) = True"
| "is_Opt c = False"

definition is_digit :: "char \<Rightarrow> bool" where
  "is_digit c = (c \<in> set ''0123456789'')"

text \<open>The pattern \<open>^-\d+$|^-\d*\.\d+$\<close>; \<open>$\<close> also matches before a final newline.\<close>

definition negative_number :: "string \<Rightarrow> bool" where
  "negative_number s =
     (let t = (if s \<noteq> [] \<and> last s = CHR 0x0A then butlast s else s)
      in case t of
           [] \<Rightarrow> False
         | c # r \<Rightarrow>
             c = CHR ''-'' \<and>
             ((r \<noteq> [] \<and> list_all is_digit r)
              \<or> (case dropWhile is_digit r of
                    [] \<Rightarrow> False
                  | p # f \<Rightarrow> p = CHR ''.'' \<and> f \<noteq> [] \<and> list_all is_digit f)))"

text \<open>\<open>_get_option_tuples\<close>: the abbreviations of long options, and a short option with
  its argument attached.\<close>

definition get_option_tuples :: "string \<Rightarrow> cls list" where
  "get_option_tuples s =
     (if s ! 1 = CHR ''-'' then
        (let option_prefix = takeWhile (\<lambda>c. c \<noteq> CHR ''='') s;
             sep = (CHR ''='' \<in> set s);
             explicit_arg = (if sep then Some (tl (dropWhile (\<lambda>c. c \<noteq> CHR ''='') s)) else None)
         in concat (map (\<lambda>(os, a). if prefix option_prefix os then [Opt (Some a) os sep explicit_arg]
                                     else [])
                        option_string_actions))
      else
        concat (map (\<lambda>(os, a). if os = take 2 s then [Opt (Some a) os False (Some (drop 2 s))]
                                else if prefix s os then [Opt (Some a) os False None]
                                else [])
                    option_string_actions))"

text \<open>\<open>_parse_optional\<close>; an ambiguous abbreviation is an error.\<close>

definition parse_optional :: "string \<Rightarrow> py_exception + cls" where
  "parse_optional s =
     (if s = [] then Inr Arg
      else if hd s \<noteq> CHR ''-'' then Inr Arg
      else if map_of option_string_actions s \<noteq> None
        then Inr (Opt (map_of option_string_actions s) s False None)
      else if length s = 1 then Inr Arg
      else if CHR ''='' \<in> set s
              \<and> map_of option_string_actions (takeWhile (\<lambda>c. c \<noteq> CHR ''='') s) \<noteq> None
        then Inr (Opt (map_of option_string_actions (takeWhile (\<lambda>c. c \<noteq> CHR ''='') s))
                    (takeWhile (\<lambda>c. c \<noteq> CHR ''='') s) True
                    (Some (tl (dropWhile (\<lambda>c. c \<noteq> CHR ''='') s))))
      else if length (get_option_tuples s) > 1 then Inl (SystemExit 2)
      else if length (get_option_tuples s) = 1 then Inr (hd (get_option_tuples s))
      else if negative_number s then Inr Arg
      else if CHR '' '' \<in> set s then Inr Arg
      else Inr (Opt None s False None))"

text \<open>The first loop of \<open>_parse_known_args\<close>: everything after \<open>--\<close> is a positional.\<close>

fun classify :: "string list \<Rightarrow> py_exception + (string \<times> cls) list" where
  "classify [] = Inr []"
| "classify (s # rest) =
     (if s = ''--'' then Inr ((s, Dashes) # map (\<lambda>x. (x, Arg)) rest)
      else case parse_optional s of
             Inl e \<Rightarrow> Inl e
           | Inr c \<Rightarrow> (case classify rest of Inl e \<Rightarrow> Inl e | Inr cs \<Rightarrow> Inr ((s, c) # cs)))"

type_synonym raw_namespace = "(string list option, string) namespace"

definition defaults :: raw_namespace where
  "defaults = \<lparr> urls = None, output_dir = None, cookies = None,
       langs = ''zh-Hans,zh,zh-CN,en'', ffmpeg = None, quiet = False, log_level = ''INFO'',
       auto_sub = False, no_playlist = False, playlist_items = None,
       write_infojson = False, clean_infojson = False \<rparr>"

text \<open>
  \<open>take_action\<close> for an option: help prints and exits with status 0, a \<open>store\<close> action
  checks the choices and sets its field to the argument string, a \<open>store_true\<close> action
  sets its field. The value is the argument string of a \<open>store\<close> action and absent
  otherwise.
\<close>

fun take_action :: "dest \<Rightarrow> string option \<Rightarrow> raw_namespace \<Rightarrow> py_exception + raw_namespace" where
  "take_action Help v n = Inl (SystemExit 0)"
| "take_action Output_dir v n = Inr (n\<lparr>output_dir := v\<rparr>)"
| "take_action Cookies v n = Inr (n\<lparr>cookies := v\<rparr>)"
| "take_action Langs v n = Inr (n\<lparr>langs := (case v of None \<Rightarrow> langs n | Some x \<Rightarrow> x)\<rparr>)"
| "take_action Ffmpeg v n = Inr (n\<lparr>ffmpeg := v\<rparr>)"
| "take_action Quiet v n = Inr (n\<lparr>quiet := True\<rparr>)"
| "take_action Log_level v n =
     (case v of
        None \<Rightarrow> Inr n
      | Some x \<Rightarrow> if x \<in> set log_level_choices then Inr (n\<lparr>log_level := x\<rparr>)
                  else Inl (SystemExit 2))"
| "take_action Auto_sub v n = Inr (n\<lparr>auto_sub := True\<rparr>)"
| "take_action No_playlist v n = Inr (n\<lparr>no_playlist := True\<rparr>)"
| "take_action Playlist_items v n = Inr (n\<lparr>playlist_items := v\<rparr>)"
| "take_action Write_infojson v n = Inr (n\<lparr>write_infojson := True\<rparr>)"
| "take_action Clean_infojson v n = Inr (n\<lparr>clean_infojson := True\<rparr>)"

fun take_actions :: "(dest \<times> string option) list \<Rightarrow> raw_namespace \<Rightarrow> py_exception + raw_namespace" where
  "take_actions [] n = Inr n"
| "take_actions ((d, v) # rest) n =
     (case take_action d v n of Inl e \<Rightarrow> Inl e | Inr n1 \<Rightarrow> take_actions rest n1)"

text \<open>
  The inner loop of \<open>consume_optional\<close>. \<open>nxt\<close> is the argument string after the option
  when it is a positional. The result: the actions to take with their values, the
  strings that go to the extras, and whether the next string was consumed.
  A short option that takes no argument and has an explicit argument is a cluster
  (\<open>-qo dir\<close>): the rest is parsed as further short options.
\<close>

function consume_optional ::
  "string option \<Rightarrow> dest \<Rightarrow> string \<Rightarrow> bool \<Rightarrow> string option \<Rightarrow> (dest \<times> string option) list \<Rightarrow>
   py_exception + ((dest \<times> string option) list \<times> string list \<times> bool)" where
  "consume_optional nxt action os sep None acc =
     (if takes_argument action then
        (case nxt of
           None \<Rightarrow> Inl (SystemExit 2)
         | Some v \<Rightarrow> Inr (acc @ [(action, Some v)], [], True))
      else Inr (acc @ [(action, None)], [], False))"
| "consume_optional nxt action os sep (Some e) acc =
     (if \<not> takes_argument action \<and> os ! 1 \<noteq> CHR ''-'' \<and> e \<noteq> [] then
        (if sep \<or> hd e = CHR ''-'' then Inl (SystemExit 2)
         else (case map_of option_string_actions [CHR ''-'', hd e] of
                 None \<Rightarrow> Inr (acc @ [(action, None)], [CHR ''-'' # e], False)
               | Some a \<Rightarrow>
                   (if tl e = [] then
                      consume_optional nxt a [CHR ''-'', hd e] False None (acc @ [(action, None)])
                    else if hd (tl e) = CHR ''='' then
                      consume_optional nxt a [CHR ''-'', hd e] True (Some (tl (tl e)))
                        (acc @ [(action, None)])
                    else
                      consume_optional nxt a [CHR ''-'', hd e] False (Some (tl e))
                        (acc @ [(action, None)]))))
      else if takes_argument action then Inr (acc @ [(action, Some e)], [], False)
      else Inl (SystemExit 2))"
  by pat_completeness auto
termination
  by (relation "measure (\<lambda>(nxt, action, os, sep, ex, acc).
                   case ex of None \<Rightarrow> 0 | Some e \<Rightarrow> Suc (length e))")
     (auto split: option.splits)

text \<open>The pattern \<open>(-*A[A-]*)\<close> of the positional \<open>urls\<close> (\<open>nargs='+'\<close>), matched at the
  start of the classes: the number of strings it takes, 0 when it does not match.\<close>

definition match_plus :: "cls list \<Rightarrow> nat" where
  "match_plus p =
     (case dropWhile (\<lambda>c. c = Dashes) p of
        Arg # r \<Rightarrow> length (takeWhile (\<lambda>c. c = Dashes) p) + 1
                 + length (takeWhile (\<lambda>c. c = Arg \<or> c = Dashes) r)
      | r \<Rightarrow> 0)"

record pstate =
  ns :: raw_namespace
  extras :: "string list"

text \<open>
  The main loop of \<open>_parse_known_args\<close> and the step after it, on the strings not yet
  consumed. The positional is still to be parsed while \<open>urls\<close> is unset; its value is the
  matched strings without the first \<open>--\<close>.
\<close>

function parse_loop :: "pstate \<Rightarrow> (string \<times> cls) list \<Rightarrow> py_exception + pstate" where
  "parse_loop st [] = Inr st"
| "parse_loop st ((s, Opt None os sep ex) # rest) =
     parse_loop (st\<lparr>extras := extras st @ [s]\<rparr>) rest"
| "parse_loop st ((s, Opt (Some a) os sep ex) # rest) =
     (case consume_optional (case rest of (v, Arg) # r \<Rightarrow> Some v | r \<Rightarrow> None) a os sep ex [] of
        Inl e \<Rightarrow> Inl e
      | Inr (tuples, xs, took) \<Rightarrow>
          (case take_actions tuples (ns st) of
             Inl e \<Rightarrow> Inl e
           | Inr n \<Rightarrow>
               parse_loop (st\<lparr>ns := n, extras := extras st @ xs\<rparr>)
                 (if took then tl rest else rest)))"
| "parse_loop st ((s, Arg) # rest) =
     (let ts = (s, Arg) # rest;
          k = (if urls (ns st) = None then match_plus (map snd ts) else 0)
      in if k > 0 then
           parse_loop (st\<lparr>ns := (ns st)\<lparr>urls := Some (remove1 ''--'' (map fst (take k ts)))\<rparr>\<rparr>)
             (drop k ts)
         else
           parse_loop (st\<lparr>extras := extras st @ map fst (takeWhile (\<lambda>t. \<not> is_Opt (snd t)) ts)\<rparr>)
             (dropWhile (\<lambda>t. \<not> is_Opt (snd t)) ts))"
| "parse_loop st ((s, Dashes) # rest) =
     (let ts = (s, Dashes) # rest;
          k = (if urls (ns st) = None then match_plus (map snd ts) else 0)
      in if k > 0 then
           parse_loop (st\<lparr>ns := (ns st)\<lparr>urls := Some (remove1 ''--'' (map fst (take k ts)))\<rparr>\<rparr>)
             (drop k ts)
         else
           parse_loop (st\<lparr>extras := extras st @ map fst (takeWhile (\<lambda>t. \<not> is_Opt (snd t)) ts)\<rparr>)
             (dropWhile (\<lambda>t. \<not> is_Opt (snd t)) ts))"
  by pat_completeness auto
termination
  by (relation "measure (\<lambda>(st, ts). length ts)")
     (auto simp: less_Suc_eq_le length_dropWhile_le intro: le_trans [OF length_dropWhile_le])

text \<open>\<open>parser.parse_args(argv)\<close>: the required positional must have been seen, and no
  string may be left over.\<close>

definition argparse :: "string list \<Rightarrow> py_exception + (string list, string) namespace" where
  "argparse argv =
     (case classify argv of
        Inl e \<Rightarrow> Inl e
      | Inr ts \<Rightarrow>
          (case parse_loop \<lparr> ns = defaults, extras = [] \<rparr> ts of
             Inl e \<Rightarrow> Inl e
           | Inr st \<Rightarrow>
               (case urls (ns st) of
                  None \<Rightarrow> Inl (SystemExit 2)
                | Some us \<Rightarrow>
                    if extras st \<noteq> [] then Inl (SystemExit 2)
                    else Inr \<lparr> urls = us, output_dir = output_dir (ns st),
                           cookies = cookies (ns st), langs = langs (ns st),
                           ffmpeg = ffmpeg (ns st), quiet = quiet (ns st),
                           log_level = log_level (ns st), auto_sub = auto_sub (ns st),
                           no_playlist = no_playlist (ns st),
                           playlist_items = playlist_items (ns st),
                           write_infojson = write_infojson (ns st),
                           clean_infojson = clean_infojson (ns st) \<rparr>)))"

section \<open>\<open>parse_args\<close>\<close>

text \<open>\<open>str.isspace\<close> on the characters a \<open>char\<close> can hold, \<open>str.strip()\<close> and
  \<open>str.split(sep)\<close> with a one-character separator.\<close>

definition isspace :: "char \<Rightarrow> bool" where
  "isspace c = (of_char c \<in> {9, 10, 11, 12, 13, 28, 29, 30, 31, 32, 133, 160 :: nat})"

definition strip :: "string \<Rightarrow> string" where
  "strip s = rev (dropWhile isspace (rev (dropWhile isspace s)))"

fun split :: "char \<Rightarrow> string \<Rightarrow> string list" where
  "split sep [] = [[]]"
| "split sep (c # cs) =
     (if c = sep then [] # split sep cs
      else (case split sep cs of [] \<Rightarrow> [[c]] | w # ws \<Rightarrow> (c # w) # ws))"

text \<open>
  Lines 317 to 328, with \<open>isfile\<close> for \<open>os.path.isfile\<close> at parse time. The result is the
  exit of the parser, or the namespace and the logging calls made.
\<close>

definition parse_args :: "(string \<Rightarrow> bool) \<Rightarrow> string list \<Rightarrow> py_exception + (args \<times> event list)" where
  "parse_args isfile argv =
     (case argparse argv of
        Inl e \<Rightarrow> Inl e
      | Inr n \<Rightarrow>
          (let a = \<lparr> urls = urls n, output_dir = output_dir n, cookies = cookies n,
                     langs = map strip (filter (\<lambda>s. strip s \<noteq> []) (split CHR '','' (langs n))),
                     ffmpeg = ffmpeg n, quiet = quiet n, log_level = log_level n,
                     auto_sub = auto_sub n, no_playlist = no_playlist n,
                     playlist_items = playlist_items n, write_infojson = write_infojson n,
                     clean_infojson = clean_infojson n \<rparr>
           in if truthy_str (cookies a) \<and> \<not> isfile (the (cookies a))
              then Inr (a\<lparr>cookies := None\<rparr>,
                        [Logging ''warning''
                           ''The specified cookies file does not exist and will be ignored: %s''
                           [PStr (the (cookies a))]])
              else Inr (a, [])))"

section \<open>\<open>main\<close>\<close>

text \<open>
  Lines 349 to 356. \<open>sys_argv\<close> is \<open>sys.argv[1:]\<close>; the two \<open>isfile\<close> are the file system
  when the arguments are parsed and when the options are built.
\<close>

definition main ::
  "'y yt_dlp \<Rightarrow> (string \<Rightarrow> bool) \<Rightarrow> (string \<Rightarrow> bool) \<Rightarrow> string list \<Rightarrow> string list option \<Rightarrow>
   event list \<times> (py_exception + unit)" where
  "main lib isfile_parse isfile_download sys_argv argv =
     (case parse_args isfile_parse (case argv of None \<Rightarrow> sys_argv | Some v \<Rightarrow> v) of
        Inl e \<Rightarrow> ([], Inl e)
      | Inr (a, evs) \<Rightarrow>
          (case download_videos lib isfile_download (urls a) a of
             (evs1, r) \<Rightarrow>
               (evs @ [Ret_parse_args, Call_basicConfig (log_level a)] @ evs1,
                case r of Inl e \<Rightarrow> Inl e | Inr failed \<Rightarrow> Inr ())))"

section \<open>Vocabulary of the properties\<close>

text \<open>
  The calls of \<open>extract_info\<close> in a list of events, in order; the events that build the
  options or construct the downloader; and, for a list of URLs, what the body of the \<open>try\<close>
  does for each URL in turn when every URL is attempted: the URL with the exception that
  left the body, if one did. Such an attempt \<open>raised\<close> when an exception left the body; it
  is \<open>caught\<close> when \<open>except Exception\<close> handles that exception and \<open>interrupted\<close> when it
  does not.
\<close>

fun extract_calls :: "event list \<Rightarrow> string list" where
  "extract_calls [] = []"
| "extract_calls (Call_extract_info u # evs) = u # extract_calls evs"
| "extract_calls (e # evs) = extract_calls evs"

fun is_constructor_event :: "event \<Rightarrow> bool" where
  "is_constructor_event (Call_YoutubeDL opts) = True"
| "is_constructor_event (Ret_build_ytdl_opts opts) = True"
| "is_constructor_event e = False"

fun attempts :: "'y yt_dlp \<Rightarrow> 'y \<Rightarrow> string list \<Rightarrow> (string \<times> py_exception option) list" where
  "attempts lib ydl [] = []"
| "attempts lib ydl (url # rest) =
     (case try_download lib ydl url of (evs, r, ydl1) \<Rightarrow> (url, r) # attempts lib ydl1 rest)"




text \<open>Concrete arguments and downloaders, for the examples: one that fails on the URL
  \<open>bad\<close>, one whose \<open>extract_info\<close> returns \<open>None\<close> (on which \<open>prepare_filename\<close> raises),
  and one that is interrupted from the keyboard.\<close>

definition args0 :: args where
  "args0 = \<lparr> urls = [], output_dir = None, cookies = None, langs = [''en''], ffmpeg = None,
       quiet = False, log_level = ''INFO'', auto_sub = False, no_playlist = False,
       playlist_items = None, write_infojson = False, clean_infojson = False \<rparr>"

definition lib_demo :: "nat yt_dlp" where
  "lib_demo = \<lparr> YoutubeDL = (\<lambda>opts. 0),
       extract_info = (\<lambda>y url. (if url = ''bad'' then Raises (LibraryError ''DownloadError'')
                                   else Returns (PDict [(''title'', PStr url)]), Suc y)),
       prepare_filename = (\<lambda>y info. (case info of
                                          PDict d \<Rightarrow> (case dict_get d ''title'' of
                                                       Some (PStr t) \<Rightarrow> Returns (t @ ''.mp4'')
                                                     | v \<Rightarrow> Raises TypeError)
                                        | v \<Rightarrow> Raises TypeError, y)) \<rparr>"


definition lib_interrupted :: "unit yt_dlp" where
  "lib_interrupted = \<lparr> YoutubeDL = (\<lambda>opts. ()),
       extract_info = (\<lambda>y url. (Raises KeyboardInterrupt, y)),
       prepare_filename = (\<lambda>y info. (Returns ''video.mp4'', y)) \<rparr>"

text \<open>
  The invariant of the parser's loop. The classified argument strings are \<open>good\<close>: before
  the separator \<open>--\<close> no string is \<open>--\<close>, and after it every string is a positional. While
  \<open>urls\<close> is unset the strings still to be consumed are good; once it is set it is a
  non-empty list of argument strings.
\<close>

fun good :: "(string \<times> cls) list \<Rightarrow> bool" where
  "good [] = True"
| "good ((s, Dashes) # rest) = list_all (\<lambda>t. snd t = Arg) rest"
| "good ((s, c) # rest) = (s \<noteq> ''--'' \<and> good rest)"

definition urls_ok :: "string set \<Rightarrow> raw_namespace \<Rightarrow> bool" where
  "urls_ok S n = (case urls n of None \<Rightarrow> True | Some us \<Rightarrow> us \<noteq> [] \<and> set us \<subseteq> S)"

definition loop_inv :: "string set \<Rightarrow> pstate \<Rightarrow> (string \<times> cls) list \<Rightarrow> bool" where
  "loop_inv S st ts = (fst ` set ts \<subseteq> S \<and> urls_ok S (ns st) \<and> (urls (ns st) = None \<longrightarrow> good ts))"

text \<open>
  Two checks on a list of events, each a scan from left to right. \<open>setup_first\<close> remembers
  whether \<open>parse_args\<close> and \<open>build_ytdl_opts\<close> have returned: the options are built only
  after the arguments are parsed, and the downloader is called only after both.
  \<open>results_follow_calls\<close> remembers the URL whose library calls are under way: the
  filename is prepared only after \<open>extract_info\<close> was called, success is logged only after
  \<open>prepare_filename\<close> was called, and a failure is logged only for the URL under way.
\<close>

fun is_library_call :: "event \<Rightarrow> bool" where
  "is_library_call (Call_YoutubeDL opts) = True"
| "is_library_call (Call_extract_info u) = True"
| "is_library_call (Call_prepare_filename info) = True"
| "is_library_call e = False"

fun setup_first :: "bool \<Rightarrow> bool \<Rightarrow> event list \<Rightarrow> bool" where
  "setup_first parsed built [] = True"
| "setup_first parsed built (Ret_parse_args # evs) = setup_first True built evs"
| "setup_first parsed built (Ret_build_ytdl_opts opts # evs) =
     (parsed \<and> setup_first parsed True evs)"
| "setup_first parsed built (e # evs) =
     ((if is_library_call e then parsed \<and> built else True) \<and> setup_first parsed built evs)"

datatype pending = Idle | Extracted string | Prepared string

fun results_follow_calls :: "pending \<Rightarrow> event list \<Rightarrow> bool" where
  "results_follow_calls p [] = True"
| "results_follow_calls p (Call_extract_info u # evs) = results_follow_calls (Extracted u) evs"
| "results_follow_calls p (Call_prepare_filename info # evs) =
     (case p of Extracted u \<Rightarrow> results_follow_calls (Prepared u) evs | q \<Rightarrow> False)"
| "results_follow_calls p (Logging f m args # evs) =
     (if f = ''info'' \<and> m = ''Downloaded: %s'' then
        (case p of Prepared u \<Rightarrow> results_follow_calls Idle evs | q \<Rightarrow> False)
      else if f = ''exception'' then
        (case args of
           [PExc e, PStr u] \<Rightarrow> (p = Extracted u \<or> p = Prepared u) \<and> results_follow_calls Idle evs
         | xs \<Rightarrow> False)
      else results_follow_calls p evs)"
| "results_follow_calls p (e # evs) = results_follow_calls p evs"

section \<open>Properties of \<open>build_ytdl_opts\<close>\<close>

lemma dict_get_set: "dict_get (dict_set d k v) k' = (if k' = k then Some v else dict_get d k')"
  by (simp add: dict_get_def dict_set_def update_conv')

lemma dict_get_append:
  "dict_get (xs @ ys) k = (case dict_get xs k of None \<Rightarrow> dict_get ys k | Some v \<Rightarrow> Some v)"
  unfolding dict_get_def by (simp add: map_add_def)

lemma dict_get_Cons: "dict_get ((k, v) # d) k' = (if k' = k then Some v else dict_get d k')"
  by (simp add: dict_get_def)

lemma dict_get_Nil: "dict_get [] k = None"
  by (simp add: dict_get_def)

lemmas dict_get_simps = dict_get_set dict_get_append dict_get_Cons dict_get_Nil

lemma base_opts_fixed_keys:
  "dict_get (base_opts od ls q) ''format'' = Some (PStr ''bv*+ba/b'')"
  "dict_get (base_opts od ls q) ''writesubtitles'' = Some (PBool True)"
  "dict_get (base_opts od ls q) ''embedsubtitles'' = Some (PBool True)"
  "dict_get (base_opts od ls q) ''subtitleslangs'' = Some (PList (map PStr ls))"
  "dict_get (base_opts od ls q) ''writethumbnail'' = Some (PBool True)"
  "dict_get (base_opts od ls q) ''embedthumbnail'' = Some (PBool True)"
  "dict_get (base_opts od ls q) ''postprocessors'' = Some postprocessors"
  by (simp_all add: base_opts_def dict_get_simps)

lemma base_opts_no_infojson:
  "dict_get (base_opts od ls q) ''writeinfojson'' = None"
  "dict_get (base_opts od ls q) ''clean_infojson'' = None"
  by (simp_all add: base_opts_def dict_get_simps)

text \<open>
  C7. Whatever the ten arguments are, the returned options hold the keys
  \<open>format\<close>, \<open>writesubtitles\<close>, \<open>embedsubtitles\<close>, \<open>subtitleslangs\<close>, \<open>writethumbnail\<close>,
  \<open>embedthumbnail\<close> and \<open>postprocessors\<close>; \<open>subtitleslangs\<close> is the \<open>langs\<close> argument and
  \<open>postprocessors\<close> is the fixed list of four post-processor entries.
\<close>

theorem build_ytdl_opts_fixed_settings:
  "(let opts = build_ytdl_opts od cf ls ff q asub npl pit wij cij
    in dict_get opts ''format'' = Some (PStr ''bv*+ba/b'')
       \<and> dict_get opts ''writesubtitles'' = Some (PBool True)
       \<and> dict_get opts ''embedsubtitles'' = Some (PBool True)
       \<and> dict_get opts ''subtitleslangs'' = Some (PList (map PStr ls))
       \<and> dict_get opts ''writethumbnail'' = Some (PBool True)
       \<and> dict_get opts ''embedthumbnail'' = Some (PBool True)
       \<and> dict_get opts ''postprocessors'' = Some postprocessors)
   \<and> (\<exists>a b c d. postprocessors = PList [a, b, c, d])"
  unfolding build_ytdl_opts_def Let_def
  by (simp add: dict_get_set base_opts_fixed_keys postprocessors_def)

theorem build_ytdl_opts_fixed_settings_witness:
  "dict_get (build_ytdl_opts (Some ''out'') None [''en'', ''zh''] None False True False None
      True True) ''subtitleslangs'' = Some (PList [PStr ''en'', PStr ''zh''])
   \<and> dict_get (build_ytdl_opts (Some ''out'') None [''en'', ''zh''] None False True False None
      True True) ''format'' = Some (PStr ''bv*+ba/b'')"
  using build_ytdl_opts_fixed_settings
    [of "Some ''out''" None "[''en'', ''zh'']" None False True False None True True]
  by (simp add: Let_def)

text \<open>
  C9. Without \<open>write_infojson\<close> the returned options hold neither \<open>writeinfojson\<close> nor
  \<open>clean_infojson\<close>, whatever \<open>clean_infojson\<close> is; \<open>clean_infojson\<close> is a key of the result
  exactly when both flags are set.
\<close>

theorem clean_infojson_needs_write_infojson:
  "(let opts = build_ytdl_opts od cf ls ff q asub npl pit wij cij
    in (\<not> wij \<longrightarrow> dict_get opts ''writeinfojson'' = None
                \<and> dict_get opts ''clean_infojson'' = None)
       \<and> (dict_get opts ''clean_infojson'' \<noteq> None \<longleftrightarrow> wij \<and> cij))"
  unfolding build_ytdl_opts_def Let_def
  by (simp add: dict_get_set base_opts_no_infojson)

theorem clean_infojson_needs_write_infojson_witness:
  "dict_get (build_ytdl_opts None None [''en''] None False False False None False True)
      ''writeinfojson'' = None
   \<and> dict_get (build_ytdl_opts None None [''en''] None False False False None False True)
      ''clean_infojson'' = None
   \<and> dict_get (build_ytdl_opts None None [''en''] None False False False None True True)
      ''clean_infojson'' = Some (PBool True)"
proof -
  have "dict_get (build_ytdl_opts None None [''en''] None False False False None True True)
      ''clean_infojson'' = Some (PBool True)"
    by (simp add: build_ytdl_opts_def Let_def dict_get_set)
  then show ?thesis
    using clean_infojson_needs_write_infojson
      [of None None "[''en'']" None False False False None False True]
    by (simp add: Let_def)
qed

section \<open>Properties of \<open>progress_hook\<close>\<close>

lemma get_default_Cons:
  "get_default ((k, v) # d) k' dflt = (if k' = k then v else get_default d k' dflt)"
  by (simp add: get_default_def dict_get_def)

lemma get_default_Nil: "get_default [] k dflt = dflt"
  by (simp add: get_default_def dict_get_def)

lemma truediv_guard: "truthy b \<Longrightarrow> truediv a b \<noteq> Inl ZeroDivisionError"
  by (cases b) (auto simp: truediv_def split: option.splits)

lemma format_f_no_zd: "format_f v \<noteq> Inl ZeroDivisionError"
  by (cases v) (auto split: option.splits)

lemma progress_hook_downloading:
  assumes "get_default d ''status'' PNone = PStr ''downloading''"
  shows "progress_hook d =
    (let total = (if truthy (get_default d ''total_bytes'' PNone)
                  then get_default d ''total_bytes'' PNone
                  else get_default d ''total_bytes_estimate'' PNone)
     in if truthy total then
          (case truediv (get_default d ''downloaded_bytes'' (PInt 0)) total of
             Inl e \<Rightarrow> Inl e
           | Inr q \<Rightarrow>
               (case format_f (get_default d ''speed'' (PInt 0)) of
                  Inl e \<Rightarrow> Inl e
                | Inr sp \<Rightarrow>
                    Inr [Stdout_write (q * 100) sp (get_default d ''eta'' (PInt 0)), Stdout_flush]))
        else Inr [])"
  unfolding progress_hook_def Let_def using assms by simp

lemma progress_hook_finished:
  assumes "get_default d ''status'' PNone = PStr ''finished''
           \<or> get_default d ''status'' PNone = PStr ''post_process''"
  shows "progress_hook d =
    (if truthy (get_default d ''filename'' PNone)
     then Inr [Logging ''info'' ''Processed: %s'' [get_default d ''filename'' PNone]]
     else (case get_default d ''info_dict'' (PDict []) of
             PDict i \<Rightarrow>
               (if truthy (get_default i ''_filename'' PNone)
                then Inr [Logging ''info'' ''Processed: %s'' [get_default i ''_filename'' PNone]]
                else Inr [])
           | v \<Rightarrow> Inl AttributeError))"
  unfolding progress_hook_def using assms by auto

lemma progress_hook_other:
  assumes "get_default d ''status'' PNone \<noteq> PStr ''downloading''"
      and "get_default d ''status'' PNone \<noteq> PStr ''finished''"
      and "get_default d ''status'' PNone \<noteq> PStr ''post_process''"
  shows "progress_hook d = (if hashable (get_default d ''status'' PNone) then Inr [] else Inl TypeError)"
  unfolding progress_hook_def using assms by simp


lemma progress_hook_no_ZeroDivisionError: "progress_hook d \<noteq> Inl ZeroDivisionError"
proof (cases "get_default d ''status'' PNone = PStr ''downloading''")
  case True
  show ?thesis
    unfolding progress_hook_downloading [OF True] Let_def
    by (auto simp: truediv_guard format_f_no_zd split: sum.splits)
next
  case False
  show ?thesis
  proof (cases "get_default d ''status'' PNone = PStr ''finished''
           \<or> get_default d ''status'' PNone = PStr ''post_process''")
    case True
    then show ?thesis
      by (simp only: progress_hook_finished) (auto split: pyval.splits)
  next
    case f: False
    with False show ?thesis by (simp add: progress_hook_other)
  qed
qed




text \<open>
  C5. The guard on the total does keep the division from a zero divisor
  (\<open>progress_hook_no_ZeroDivisionError\<close>), and with numbers for the byte counts and the speed
  the line is written with the percentage \<open>downloaded / total * 100\<close>
  (\<open>progress_hook_numbers\<close>). But a truthy total does not suffice for the line: the
  downloader reports an unknown speed as \<open>None\<close>, \<open>d.get('speed', 0)\<close> then returns
  \<open>None\<close>, and formatting it with \<open>.0f\<close> raises a \<open>TypeError\<close> before anything is written.
\<close>

theorem progress_hook_speed_None:
  "progress_hook [(''status'', PStr ''downloading''), (''downloaded_bytes'', PInt 50),
      (''total_bytes'', PInt 100), (''speed'', PNone), (''eta'', PNone)] = Inl TypeError"
  by (simp add: progress_hook_def get_default_Cons get_default_Nil truediv_def Let_def)

lemma progress_hook_numbers:
  assumes "get_default d ''status'' PNone = PStr ''downloading''"
      and "tot = (if truthy (get_default d ''total_bytes'' PNone)
                    then get_default d ''total_bytes'' PNone
                    else get_default d ''total_bytes_estimate'' PNone)"
      and "truthy tot"
      and "number tot = Some t"
      and "number (get_default d ''downloaded_bytes'' (PInt 0)) = Some n"
      and "number (get_default d ''speed'' (PInt 0)) = Some sp"
  shows "progress_hook d
         = Inr [Stdout_write (n / t * 100) sp (get_default d ''eta'' (PInt 0)), Stdout_flush]"
proof -
  from assms(3,4) have "t \<noteq> 0" by (cases tot) (auto split: if_splits)
  then have q: "truediv (get_default d ''downloaded_bytes'' (PInt 0)) tot = Inr (n / t)"
    using assms(4,5) by (simp add: truediv_def)
  have f: "format_f (get_default d ''speed'' (PInt 0)) = Inr sp"
    using assms(6) by (cases "get_default d ''speed'' (PInt 0)") auto
  show ?thesis
    unfolding progress_hook_downloading [OF assms(1)] Let_def
    using assms(2,3) q f by simp
qed

lemma progress_hook_no_total:
  assumes "get_default d ''status'' PNone = PStr ''downloading''"
      and "\<not> truthy (get_default d ''total_bytes'' PNone)"
      and "\<not> truthy (get_default d ''total_bytes_estimate'' PNone)"
  shows "progress_hook d = Inr []"
  unfolding progress_hook_downloading [OF assms(1)] Let_def using assms(2,3) by simp

section \<open>Properties of \<open>download_videos\<close>\<close>

lemma extract_calls_append: "extract_calls (xs @ ys) = extract_calls xs @ extract_calls ys"
  by (induction xs rule: extract_calls.induct) auto

lemma try_download_calls:
  "try_download lib ydl u = (evs, r, ydl1) \<Longrightarrow> extract_calls evs = [u]"
  by (auto simp: try_download_def split: prod.splits outcome.splits)

lemma try_download_no_constructor:
  "try_download lib ydl u = (evs, r, ydl1) \<Longrightarrow> \<not> list_ex is_constructor_event evs"
  by (auto simp: try_download_def split: prod.splits outcome.splits)

lemma download_loop_calls:
  "download_loop lib ydl us failed = (evs, r) \<Longrightarrow>
     prefix (extract_calls evs) us
     \<and> (case r of Inr f \<Rightarrow> extract_calls evs = us | Inl e \<Rightarrow> \<not> is_Exception e)"
proof (induction us arbitrary: ydl failed evs r)
  case Nil
  then show ?case by auto
next
  case (Cons u us)
  obtain evs0 r0 ydl1 where t: "try_download lib ydl u = (evs0, r0, ydl1)"
    by (cases "try_download lib ydl u") auto
  note c = try_download_calls [OF t]
  show ?case
  proof (cases r0)
    case None
    obtain evs1 r1 where l: "download_loop lib ydl1 us failed = (evs1, r1)"
      by (cases "download_loop lib ydl1 us failed") auto
    from Cons.prems t None l have "evs = evs0 @ evs1" "r = r1" by auto
    with Cons.IH [OF l] c show ?thesis by (auto simp: extract_calls_append split: sum.splits)
  next
    case (Some e)
    show ?thesis
    proof (cases "is_Exception e")
      case True
      obtain evs1 r1 where l: "download_loop lib ydl1 us (failed @ [u]) = (evs1, r1)"
        by (cases "download_loop lib ydl1 us (failed @ [u])") auto
      from Cons.prems t Some True l
      have "evs = evs0 @ [Logging ''exception'' ''Download failed: %s | URL: %s'' [PExc e, PStr u]] @ evs1"
        "r = r1" by auto
      with Cons.IH [OF l] c show ?thesis by (auto simp: extract_calls_append split: sum.splits)
    next
      case False
      with Cons.prems t Some have "evs = evs0" "r = Inl e" by auto
      with c False show ?thesis by auto
    qed
  qed
qed

lemma download_loop_no_constructor:
  "download_loop lib ydl us failed = (evs, r) \<Longrightarrow> \<not> list_ex is_constructor_event evs"
proof (induction us arbitrary: ydl failed evs r)
  case Nil
  then show ?case by auto
next
  case (Cons u us)
  obtain evs0 r0 ydl1 where t: "try_download lib ydl u = (evs0, r0, ydl1)"
    by (cases "try_download lib ydl u") auto
  note c = try_download_no_constructor [OF t]
  show ?case
  proof (cases r0)
    case None
    obtain evs1 r1 where l: "download_loop lib ydl1 us failed = (evs1, r1)"
      by (cases "download_loop lib ydl1 us failed") auto
    from Cons.prems t None l have "evs = evs0 @ evs1" by auto
    with Cons.IH [OF l] c show ?thesis by auto
  next
    case (Some e)
    show ?thesis
    proof (cases "is_Exception e")
      case True
      obtain evs1 r1 where l: "download_loop lib ydl1 us (failed @ [u]) = (evs1, r1)"
        by (cases "download_loop lib ydl1 us (failed @ [u])") auto
      from Cons.prems t Some True l
      have "evs = evs0 @ [Logging ''exception'' ''Download failed: %s | URL: %s'' [PExc e, PStr u]] @ evs1"
        by auto
      with Cons.IH [OF l] c show ?thesis by auto
    next
      case False
      with Cons.prems t Some have "evs = evs0" by auto
      with c show ?thesis by auto
    qed
  qed
qed


lemma attempts_urls: "map fst (attempts lib ydl us) = us"
  by (induction us arbitrary: ydl) (auto split: prod.splits)



lemma download_videos_fst:
  "fst (download_videos lib isfile us a) =
     [Ret_build_ytdl_opts (download_opts isfile a),
      Logging ''debug'' ''ydl_opts: %s'' [debug_view (download_opts isfile a)],
      Call_YoutubeDL (download_opts isfile a)]
     @ fst (download_loop lib (YoutubeDL lib (download_opts isfile a)) us [])
     @ (case snd (download_loop lib (YoutubeDL lib (download_opts isfile a)) us []) of
          Inl e \<Rightarrow> []
        | Inr failed \<Rightarrow>
            if failed \<noteq> []
            then [Logging ''warning''
                    (''The following %d URLs failed to download:'' @ [CHR 0x0A] @ ''%s'')
                    [PInt (int (length failed)), PStr (join [CHR 0x0A] failed)]]
            else [])"
  unfolding download_videos_def Let_def
  by (cases "download_loop lib (YoutubeDL lib (download_opts isfile a)) us []")
     (simp split: sum.splits)

lemma download_videos_snd:
  "snd (download_videos lib isfile us a)
     = snd (download_loop lib (YoutubeDL lib (download_opts isfile a)) us [])"
  unfolding download_videos_def Let_def
  by (cases "download_loop lib (YoutubeDL lib (download_opts isfile a)) us []")
     (simp split: sum.splits)


text \<open>
  C6, as amended. \<open>download_videos\<close> builds the options once and constructs one downloader
  from them, before the loop. The calls of \<open>extract_info\<close> go through the URLs in input
  order, one call per position of the list: always for a prefix of the list, and for the
  whole list whenever \<open>download_videos\<close> returns. It stops early only by passing on an
  exception that is outside the class \<open>Exception\<close>.
\<close>

theorem download_videos_sequential:
  "\<exists>rest. fst (download_videos lib isfile us a)
            = [Ret_build_ytdl_opts (download_opts isfile a),
               Logging ''debug'' ''ydl_opts: %s'' [debug_view (download_opts isfile a)],
               Call_YoutubeDL (download_opts isfile a)] @ rest
      \<and> \<not> list_ex is_constructor_event rest
      \<and> prefix (extract_calls rest) us
      \<and> (case snd (download_videos lib isfile us a) of
            Inr failed \<Rightarrow> extract_calls rest = us
          | Inl e \<Rightarrow> \<not> is_Exception e)"
proof -
  let ?ydl = "YoutubeDL lib (download_opts isfile a)"
  obtain evs r where l: "download_loop lib ?ydl us [] = (evs, r)"
    by (cases "download_loop lib ?ydl us []") auto
  let ?tail = "(case r of
          Inl e \<Rightarrow> []
        | Inr failed \<Rightarrow>
            if failed \<noteq> []
            then [Logging ''warning''
                    (''The following %d URLs failed to download:'' @ [CHR 0x0A] @ ''%s'')
                    [PInt (int (length failed)), PStr (join [CHR 0x0A] failed)]]
            else [])"
  have t: "extract_calls ?tail = []" "\<not> list_ex is_constructor_event ?tail"
    by (auto split: sum.splits)
  from download_loop_calls [OF l] download_loop_no_constructor [OF l] t
  have "\<not> list_ex is_constructor_event (evs @ ?tail)"
    and "prefix (extract_calls (evs @ ?tail)) us"
    and "(case r of Inr failed \<Rightarrow> extract_calls (evs @ ?tail) = us | Inl e \<Rightarrow> \<not> is_Exception e)"
    by (auto simp: extract_calls_append split: sum.splits)
  then show ?thesis
    using l by (intro exI [of _ "evs @ ?tail"]) (simp add: download_videos_fst download_videos_snd)
qed

lemma demo_loop:
  "download_loop lib_demo 0 [''a'', ''bad''] [] =
     ([Call_extract_info ''a'', Call_prepare_filename (PDict [(''title'', PStr ''a'')]),
       Logging ''info'' ''Downloaded: %s'' [PStr ''a.mp4''],
       Call_extract_info ''bad'',
       Logging ''exception'' ''Download failed: %s | URL: %s''
         [PExc (LibraryError ''DownloadError''), PStr ''bad'']],
      Inr [''bad''])"
  by (simp add: try_download_def lib_demo_def dict_get_def)



theorem download_videos_sequential_witness:
  "extract_calls (fst (download_videos lib_demo (\<lambda>p. False) [''a'', ''bad''] args0)) = [''a'', ''bad'']
   \<and> snd (download_videos lib_demo (\<lambda>p. False) [''a'', ''bad''] args0) = Inr [''bad'']"
proof -
  have y: "YoutubeDL lib_demo (download_opts (\<lambda>p. False) args0) = 0"
    by (simp add: lib_demo_def)
  have s: "snd (download_videos lib_demo (\<lambda>p. False) [''a'', ''bad''] args0) = Inr [''bad'']"
    unfolding download_videos_snd y demo_loop by simp
  from download_videos_sequential [of lib_demo "\<lambda>p. False" "[''a'', ''bad'']" args0]
  obtain rest where
    "fst (download_videos lib_demo (\<lambda>p. False) [''a'', ''bad''] args0)
       = [Ret_build_ytdl_opts (download_opts (\<lambda>p. False) args0),
          Logging ''debug'' ''ydl_opts: %s'' [debug_view (download_opts (\<lambda>p. False) args0)],
          Call_YoutubeDL (download_opts (\<lambda>p. False) args0)] @ rest"
    and "extract_calls rest = [''a'', ''bad'']"
    unfolding s by auto
  then show ?thesis using s by simp
qed


text \<open>
  C6 as stated fails: interrupted on the first of two URLs, \<open>download_videos\<close> never calls
  \<open>extract_info\<close> for the second.
\<close>

theorem download_videos_interrupted:
  "fst (download_videos lib_interrupted (\<lambda>p. False) [''u'', ''v''] args0)
     = [Ret_build_ytdl_opts (download_opts (\<lambda>p. False) args0),
        Logging ''debug'' ''ydl_opts: %s'' [debug_view (download_opts (\<lambda>p. False) args0)],
        Call_YoutubeDL (download_opts (\<lambda>p. False) args0),
        Call_extract_info ''u'']
   \<and> snd (download_videos lib_interrupted (\<lambda>p. False) [''u'', ''v''] args0) = Inl KeyboardInterrupt"
  by (simp add: download_videos_fst download_videos_snd try_download_def lib_interrupted_def)

section \<open>Properties of the argument parser\<close>

lemma get_option_tuples_Opt: "c \<in> set (get_option_tuples s) \<Longrightarrow> is_Opt c"
  unfolding get_option_tuples_def Let_def
  by (auto split: if_splits)

lemma parse_optional_not_Dashes: "parse_optional s \<noteq> Inr Dashes"
proof -
  have h: "length (get_option_tuples s) = 1 \<Longrightarrow> hd (get_option_tuples s) \<noteq> Dashes"
  proof -
    assume "length (get_option_tuples s) = 1"
    then have "hd (get_option_tuples s) \<in> set (get_option_tuples s)"
      by (cases "get_option_tuples s") auto
    from get_option_tuples_Opt [OF this] show ?thesis by auto
  qed
  show ?thesis
    unfolding parse_optional_def using h by simp
qed

lemma good_not_Dashes: "c \<noteq> Dashes \<Longrightarrow> good ((s, c) # rest) = (s \<noteq> ''--'' \<and> good rest)"
  by (cases c) auto

lemma classify_good: "classify argv = Inr ts \<Longrightarrow> good ts"
proof (induction argv arbitrary: ts)
  case Nil
  then show ?case by simp
next
  case (Cons s argv)
  show ?case
  proof (cases "s = ''--''")
    case True
    with Cons.prems show ?thesis by (auto simp: list_all_iff)
  next
    case False
    with Cons.prems obtain c cs where
      c: "parse_optional s = Inr c" and cs: "classify argv = Inr cs" and ts: "ts = (s, c) # cs"
      by (auto split: sum.splits)
    from c have "c \<noteq> Dashes" using parse_optional_not_Dashes [of s] by auto
    with False Cons.IH [OF cs] ts show ?thesis by (simp add: good_not_Dashes)
  qed
qed

lemma classify_strings: "classify argv = Inr ts \<Longrightarrow> map fst ts = argv"
proof (induction argv arbitrary: ts)
  case Nil
  then show ?case by simp
next
  case (Cons s argv)
  then show ?case
    by (cases "s = ''--''") (auto simp: comp_def split: sum.splits)
qed

lemma take_action_urls: "take_action d v n = Inr n1 \<Longrightarrow> urls n1 = urls n"
  by (cases d) (auto split: option.splits if_splits)

lemma take_actions_urls: "take_actions tuples n = Inr n1 \<Longrightarrow> urls n1 = urls n"
proof (induction tuples arbitrary: n)
  case Nil
  then show ?case by simp
next
  case (Cons t tuples)
  obtain d v where t: "t = (d, v)" by (cases t)
  from Cons.prems t obtain n0 where
    a: "take_action d v n = Inr n0" and r: "take_actions tuples n0 = Inr n1"
    by (auto split: sum.splits)
  from Cons.IH [OF r] take_action_urls [OF a] show ?case by simp
qed

lemma consume_optional_took:
  "consume_optional nxt a os sep ex acc = Inr (tuples, xs, True) \<Longrightarrow> nxt \<noteq> None"
proof (induction nxt a os sep ex acc rule: consume_optional.induct)
  case (1 nxt action os sep acc)
  then show ?case by (auto split: if_splits option.splits)
next
  case (2 nxt action os sep e acc)
  show ?case
  proof (cases "\<not> takes_argument action \<and> os ! 1 \<noteq> CHR ''-'' \<and> e \<noteq> []")
    case False
    with "2.prems" show ?thesis by (auto split: if_splits)
  next
    case True
    with "2.prems" have s: "\<not> (sep \<or> hd e = CHR ''-'')" by (auto split: if_splits)
    show ?thesis
    proof (cases "map_of option_string_actions [CHR ''-'', hd e]")
      case None
      with True s "2.prems" show ?thesis by simp
    next
      case (Some a)
      consider "tl e = []" | "tl e \<noteq> []" "hd (tl e) = CHR ''=''"
        | "tl e \<noteq> []" "hd (tl e) \<noteq> CHR ''=''" by blast
      then show ?thesis
      proof cases
        case 1
        with True s Some "2.prems" "2.IH"(1) [OF True s Some 1] show ?thesis by simp
      next
        case 2
        with True s Some "2.prems" "2.IH"(2) [OF True s Some 2(1) 2(2)] show ?thesis by simp
      next
        case 3
        with True s Some "2.prems" "2.IH"(3) [OF True s Some 3(1) 3(2)] show ?thesis by simp
      qed
    qed
  qed
qed


lemma match_plus_le: "match_plus p \<le> length p"
proof -
  have a: "length (takeWhile (\<lambda>c. c = Dashes) p) + length (dropWhile (\<lambda>c. c = Dashes) p) = length p"
    by (metis length_append takeWhile_dropWhile_id)
  show ?thesis
  proof (cases "dropWhile (\<lambda>c. c = Dashes) p")
    case Nil
    show ?thesis unfolding match_plus_def Nil by simp
  next
    case (Cons c r)
    have "length (takeWhile (\<lambda>c. c = Arg \<or> c = Dashes) r) \<le> length r"
      by (rule length_takeWhile_le)
    with a Cons show ?thesis by (cases c) (auto simp: match_plus_def)
  qed
qed

lemma match_plus_Arg: "0 < match_plus (Arg # cs)"
  by (simp add: match_plus_def)

lemma match_plus_Dashes:
  "list_all (\<lambda>c. c = Arg) cs \<Longrightarrow> 0 < match_plus (Dashes # cs) \<Longrightarrow> 2 \<le> match_plus (Dashes # cs)"
  by (cases cs) (auto simp: match_plus_def)

lemma remove1_nonempty: "2 \<le> length xs \<Longrightarrow> remove1 x xs \<noteq> []"
  by (cases xs) (auto split: if_splits)

lemma set_take_fst: "fst ` set ts \<subseteq> S \<Longrightarrow> set (remove1 x (map fst (take k ts))) \<subseteq> S"
proof -
  assume a: "fst ` set ts \<subseteq> S"
  have "set (remove1 x (map fst (take k ts))) \<subseteq> set (map fst (take k ts))"
    by (rule set_remove1_subset)
  also have "\<dots> \<subseteq> fst ` set ts" using set_take_subset [of k ts] by auto
  finally show ?thesis using a by blast
qed

lemma good_after_Arg: "good ((s, Arg) # rest) \<Longrightarrow> good rest"
  by simp

lemma positional_step:
  assumes inv: "loop_inv S st ((s, c) # rest)"
      and c: "c = Arg \<or> c = Dashes"
      and k: "k = (if urls (ns st) = None then match_plus (map snd ((s, c) # rest)) else 0)"
      and pos: "0 < k"
  shows "loop_inv S (st\<lparr>ns := (ns st)\<lparr>urls := Some (remove1 ''--'' (map fst (take k ((s, c) # rest))))\<rparr>\<rparr>)
           (drop k ((s, c) # rest))"
proof -
  let ?ts = "(s, c) # rest"
  from inv have sub: "fst ` set ?ts \<subseteq> S" by (simp add: loop_inv_def)
  from k pos have pend: "urls (ns st) = None" and km: "k = match_plus (map snd ?ts)"
    by (auto split: if_splits)
  with inv have g: "good ?ts" by (simp add: loop_inv_def)
  have kl: "k \<le> length ?ts" using match_plus_le [of "map snd ?ts"] km by simp
  have ne: "remove1 ''--'' (map fst (take k ?ts)) \<noteq> []"
  proof (cases "c = Dashes")
    case True
    with g have "list_all (\<lambda>c. c = Arg) (map snd rest)" by (simp add: list_all_iff)
    from match_plus_Dashes [OF this] pos km True have "2 \<le> k" by simp
    with kl have "2 \<le> length (map fst (take k ?ts))" by simp
    then show ?thesis by (rule remove1_nonempty)
  next
    case False
    with c g have "s \<noteq> ''--''" by auto
    moreover from pos obtain j where "k = Suc j" by (cases k) auto
    ultimately show ?thesis by simp
  qed
  have "fst ` set (drop k ?ts) \<subseteq> S" using sub set_drop_subset [of k ?ts] by blast
  with ne set_take_fst [OF sub] show ?thesis
    by (simp add: loop_inv_def urls_ok_def)
qed

lemma extras_step:
  assumes inv: "loop_inv S st ((s, c) # rest)"
      and c: "c = Arg \<or> c = Dashes"
      and k: "k = (if urls (ns st) = None then match_plus (map snd ((s, c) # rest)) else 0)"
      and pos: "\<not> 0 < k"
  shows "loop_inv S (st\<lparr>extras := xs\<rparr>) (dropWhile (\<lambda>t. \<not> is_Opt (snd t)) ((s, c) # rest))"
proof -
  let ?ts = "(s, c) # rest"
  from inv have sub: "fst ` set ?ts \<subseteq> S" and ok: "urls_ok S (ns st)" by (simp_all add: loop_inv_def)
  have d: "fst ` set (dropWhile (\<lambda>t. \<not> is_Opt (snd t)) ?ts) \<subseteq> S"
    using sub set_dropWhileD [of _ "\<lambda>t. \<not> is_Opt (snd t)" ?ts] by blast
  show ?thesis
  proof (cases "urls (ns st) = None")
    case False
    with d ok show ?thesis by (auto simp: loop_inv_def)
  next
    case True
    with inv have g: "good ?ts" by (simp add: loop_inv_def)
    from True k pos have z: "match_plus (map snd ?ts) = 0" by simp
    with c match_plus_Arg [of "map snd rest"] have cd: "c = Dashes" by auto
    with g have "list_all (\<lambda>t. snd t = Arg) rest" by simp
    then have "dropWhile (\<lambda>t. \<not> is_Opt (snd t)) ?ts = []"
      using cd by (auto simp: list_all_iff)
    with ok sub True show ?thesis by (simp add: loop_inv_def)
  qed
qed

lemma parse_loop_urls:
  "parse_loop st ts = Inr st1 \<Longrightarrow> loop_inv S st ts \<Longrightarrow> urls_ok S (ns st1)"
proof (induction st ts arbitrary: st1 rule: parse_loop.induct)
  case (1 st)
  then show ?case by (simp add: loop_inv_def)
next
  case (2 st s os sep ex rest)
  from "2.prems"(2) have "loop_inv S (st\<lparr>extras := extras st @ [s]\<rparr>) rest"
    by (auto simp: loop_inv_def)
  with "2.IH" "2.prems"(1) show ?case by simp
next
  case (3 st s a os sep ex rest)
  let ?nxt = "case rest of [] \<Rightarrow> None | (v, Arg) # r \<Rightarrow> Some v | (v, c) # r \<Rightarrow> None"
  from "3.prems"(1) obtain tuples xs took n where
    co: "consume_optional ?nxt a os sep ex [] = Inr (tuples, xs, took)"
    and ta: "take_actions tuples (ns st) = Inr n"
    and pl: "parse_loop (st\<lparr>ns := n, extras := extras st @ xs\<rparr>) (if took then tl rest else rest) = Inr st1"
    by (auto split: sum.splits prod.splits)
  from "3.prems"(2) have sub: "fst ` set rest \<subseteq> S" and ok: "urls_ok S (ns st)"
    and g: "urls (ns st) = None \<longrightarrow> good rest"
    by (auto simp: loop_inv_def)
  have u: "urls n = urls (ns st)" by (rule take_actions_urls [OF ta])
  have "fst ` set (tl rest) \<subseteq> S" using sub by (cases rest) auto
  moreover have "good rest \<Longrightarrow> took \<Longrightarrow> good (tl rest)"
  proof -
    assume gr: "good rest" and "took"
    with co have "consume_optional ?nxt a os sep ex [] = Inr (tuples, xs, True)" by simp
    then have "?nxt \<noteq> None" by (rule consume_optional_took)
    then obtain v r where "rest = (v, Arg) # r"
      by (auto split: list.splits cls.splits)
    with gr show "good (tl rest)" by simp
  qed
  ultimately have "loop_inv S (st\<lparr>ns := n, extras := extras st @ xs\<rparr>) (if took then tl rest else rest)"
    using sub ok g u by (auto simp: loop_inv_def urls_ok_def)
  from "3.IH" [OF co [symmetric, THEN sym] refl refl ta pl this] show ?case .
next
  case (4 st s rest)
  let ?ts = "(s, Arg) # rest"
  let ?k = "if urls (ns st) = None then match_plus (map snd ?ts) else 0"
  show ?case
  proof (cases "0 < ?k")
    case True
    from positional_step [OF "4.prems"(2) _ refl True]
    have inv: "loop_inv S (st\<lparr>ns := (ns st)\<lparr>urls := Some (remove1 ''--'' (map fst (take ?k ?ts)))\<rparr>\<rparr>)
           (drop ?k ?ts)" by simp
    from "4.prems"(1) True
    have "parse_loop (st\<lparr>ns := (ns st)\<lparr>urls := Some (remove1 ''--'' (map fst (take ?k ?ts)))\<rparr>\<rparr>)
           (drop ?k ?ts) = Inr st1" by (simp add: Let_def)
    from "4.IH"(1) [OF refl refl True this inv] show ?thesis .
  next
    case False
    from extras_step [OF "4.prems"(2) _ refl False]
    have inv: "loop_inv S (st\<lparr>extras := extras st @ map fst (takeWhile (\<lambda>t. \<not> is_Opt (snd t)) ?ts)\<rparr>)
           (dropWhile (\<lambda>t. \<not> is_Opt (snd t)) ?ts)" by simp
    from "4.prems"(1) False
    have "parse_loop (st\<lparr>extras := extras st @ map fst (takeWhile (\<lambda>t. \<not> is_Opt (snd t)) ?ts)\<rparr>)
           (dropWhile (\<lambda>t. \<not> is_Opt (snd t)) ?ts) = Inr st1" by (simp add: Let_def)
    from "4.IH"(2) [OF refl refl False this inv] show ?thesis .
  qed
next
  case (5 st s rest)
  let ?ts = "(s, Dashes) # rest"
  let ?k = "if urls (ns st) = None then match_plus (map snd ?ts) else 0"
  show ?case
  proof (cases "0 < ?k")
    case True
    from positional_step [OF "5.prems"(2) _ refl True]
    have inv: "loop_inv S (st\<lparr>ns := (ns st)\<lparr>urls := Some (remove1 ''--'' (map fst (take ?k ?ts)))\<rparr>\<rparr>)
           (drop ?k ?ts)" by simp
    from "5.prems"(1) True
    have "parse_loop (st\<lparr>ns := (ns st)\<lparr>urls := Some (remove1 ''--'' (map fst (take ?k ?ts)))\<rparr>\<rparr>)
           (drop ?k ?ts) = Inr st1" by (simp add: Let_def)
    from "5.IH"(1) [OF refl refl True this inv] show ?thesis .
  next
    case False
    from extras_step [OF "5.prems"(2) _ refl False]
    have inv: "loop_inv S (st\<lparr>extras := extras st @ map fst (takeWhile (\<lambda>t. \<not> is_Opt (snd t)) ?ts)\<rparr>)
           (dropWhile (\<lambda>t. \<not> is_Opt (snd t)) ?ts)" by simp
    from "5.prems"(1) False
    have "parse_loop (st\<lparr>extras := extras st @ map fst (takeWhile (\<lambda>t. \<not> is_Opt (snd t)) ?ts)\<rparr>)
           (dropWhile (\<lambda>t. \<not> is_Opt (snd t)) ?ts) = Inr st1" by (simp add: Let_def)
    from "5.IH"(2) [OF refl refl False this inv] show ?thesis .
  qed
qed


lemma classify_exit: "classify argv = Inl e \<Longrightarrow> e = SystemExit 2"
proof (induction argv)
  case Nil
  then show ?case by simp
next
  case (Cons s argv)
  show ?case
  proof (cases "s = ''--''")
    case True
    with Cons.prems show ?thesis by simp
  next
    case False
    show ?thesis
    proof (cases "parse_optional s")
      case (Inl x)
      then have "x = SystemExit 2"
        unfolding parse_optional_def by (simp split: if_splits)
      with Cons.prems False Inl show ?thesis by simp
    next
      case (Inr c)
      with Cons.prems False Cons.IH show ?thesis by (auto split: sum.splits)
    qed
  qed
qed

lemma consume_optional_exit:
  "consume_optional nxt a os sep ex acc = Inl e \<Longrightarrow> e = SystemExit 2"
proof (induction nxt a os sep ex acc rule: consume_optional.induct)
  case (1 nxt action os sep acc)
  then show ?case by (auto split: if_splits option.splits)
next
  case (2 nxt action os sep e' acc)
  show ?case
  proof (cases "\<not> takes_argument action \<and> os ! 1 \<noteq> CHR ''-'' \<and> e' \<noteq> []")
    case False
    with "2.prems" show ?thesis by (auto split: if_splits)
  next
    case True
    show ?thesis
    proof (cases "sep \<or> hd e' = CHR ''-''")
      case s: True
      with True "2.prems" show ?thesis by auto
    next
      case s: False
      show ?thesis
      proof (cases "map_of option_string_actions [CHR ''-'', hd e']")
        case None
        with True s "2.prems" show ?thesis by simp
      next
        case (Some a)
        consider "tl e' = []" | "tl e' \<noteq> []" "hd (tl e') = CHR ''=''"
          | "tl e' \<noteq> []" "hd (tl e') \<noteq> CHR ''=''" by blast
        then show ?thesis
        proof cases
          case 1
          with True s Some "2.prems" "2.IH"(1) [OF True s Some 1] show ?thesis by simp
        next
          case 2
          with True s Some "2.prems" "2.IH"(2) [OF True s Some 2(1) 2(2)] show ?thesis by simp
        next
          case 3
          with True s Some "2.prems" "2.IH"(3) [OF True s Some 3(1) 3(2)] show ?thesis by simp
        qed
      qed
    qed
  qed
qed

lemma take_action_exit: "take_action d v n = Inl e \<Longrightarrow> e = SystemExit 0 \<or> e = SystemExit 2"
  by (cases d) (auto split: option.splits if_splits)

lemma take_actions_exit:
  "take_actions tuples n = Inl e \<Longrightarrow> e = SystemExit 0 \<or> e = SystemExit 2"
proof (induction tuples arbitrary: n)
  case Nil
  then show ?case by simp
next
  case (Cons t tuples)
  obtain d v where t: "t = (d, v)" by (cases t)
  show ?case
  proof (cases "take_action d v n")
    case (Inl x)
    with Cons.prems t take_action_exit [OF Inl] show ?thesis by simp
  next
    case (Inr n0)
    with Cons.prems t Cons.IH [of n0] show ?thesis by simp
  qed
qed

lemma parse_loop_exit:
  "parse_loop st ts = Inl e \<Longrightarrow> e = SystemExit 0 \<or> e = SystemExit 2"
proof (induction st ts rule: parse_loop.induct)
  case (1 st)
  then show ?case by simp
next
  case (2 st s os sep ex rest)
  then show ?case by simp
next
  case (3 st s a os sep ex rest)
  let ?nxt = "case rest of [] \<Rightarrow> None | (v, Arg) # r \<Rightarrow> Some v | (v, c) # r \<Rightarrow> None"
  show ?case
  proof (cases "consume_optional ?nxt a os sep ex []")
    case (Inl x)
    with "3.prems" consume_optional_exit [OF Inl] show ?thesis by simp
  next
    case (Inr res)
    obtain tuples xs took where res: "res = (tuples, xs, took)" by (cases res)
    show ?thesis
    proof (cases "take_actions tuples (ns st)")
      case (Inl x)
      with "3.prems" Inr res take_actions_exit [OF Inl] show ?thesis by simp
    next
      case n: (Inr n)
      from "3.prems" Inr res n
      have "parse_loop (st\<lparr>ns := n, extras := extras st @ xs\<rparr>) (if took then tl rest else rest) = Inl e"
        by simp
      from "3.IH" [OF Inr [unfolded res] refl refl n this] show ?thesis .
    qed
  qed
next
  case (4 st s rest)
  let ?ts = "(s, Arg) # rest"
  let ?k = "if urls (ns st) = None then match_plus (map snd ?ts) else 0"
  show ?case
  proof (cases "0 < ?k")
    case True
    with "4.prems" "4.IH"(1) [OF refl refl True] show ?thesis by (simp add: Let_def)
  next
    case False
    with "4.prems" "4.IH"(2) [OF refl refl False] show ?thesis by (simp add: Let_def)
  qed
next
  case (5 st s rest)
  let ?ts = "(s, Dashes) # rest"
  let ?k = "if urls (ns st) = None then match_plus (map snd ?ts) else 0"
  show ?case
  proof (cases "0 < ?k")
    case True
    with "5.prems" "5.IH"(1) [OF refl refl True] show ?thesis by (simp add: Let_def)
  next
    case False
    with "5.prems" "5.IH"(2) [OF refl refl False] show ?thesis by (simp add: Let_def)
  qed
qed

lemma argparse_exit: "argparse argv = Inl e \<Longrightarrow> e = SystemExit 0 \<or> e = SystemExit 2"
  unfolding argparse_def
  by (auto split: sum.splits option.splits if_splits dest: classify_exit parse_loop_exit)

lemma argparse_urls:
  assumes "argparse argv = Inr n"
  shows "urls n \<noteq> [] \<and> set (urls n) \<subseteq> set argv"
proof -
  from assms obtain ts st us where
    c: "classify argv = Inr ts" and
    p: "parse_loop \<lparr> ns = defaults, extras = [] \<rparr> ts = Inr st" and
    u: "urls (ns st) = Some us" and n: "urls n = us"
    unfolding argparse_def by (auto split: sum.splits option.splits if_splits)
  have "fst ` set ts = set argv" using classify_strings [OF c] by (metis set_map)
  then have "loop_inv (set argv) \<lparr> ns = defaults, extras = [] \<rparr> ts"
    using classify_good [OF c] by (simp add: loop_inv_def urls_ok_def defaults_def)
  from parse_loop_urls [OF p this] u n show ?thesis by (simp add: urls_ok_def)
qed

lemma parse_args_Inr:
  "parse_args isfile argv = Inr (a, evs) \<Longrightarrow>
   \<exists>n. argparse argv = Inr n \<and> urls a = urls n
        \<and> cookies a = (if truthy_str (cookies n) \<and> \<not> isfile (the (cookies n)) then None else cookies n)
        \<and> langs a = map strip (filter (\<lambda>s. strip s \<noteq> []) (split CHR '','' (langs n)))
        \<and> evs = (if truthy_str (cookies n) \<and> \<not> isfile (the (cookies n))
                  then [Logging ''warning''
                          ''The specified cookies file does not exist and will be ignored: %s''
                          [PStr (the (cookies n))]]
                  else [])"
  unfolding parse_args_def Let_def
  by (auto split: sum.splits if_splits)

lemma parse_args_Inl: "parse_args isfile argv = Inl e \<Longrightarrow> argparse argv = Inl e"
  unfolding parse_args_def Let_def
  by (auto split: sum.splits if_splits)

section \<open>Properties of \<open>parse_args\<close>\<close>

lemma base_opts_no_cookiefile: "dict_get (base_opts od ls q) ''cookiefile'' = None"
  by (simp add: base_opts_def dict_get_simps)

lemma download_opts_cookiefile:
  "dict_get (download_opts isfile b) ''cookiefile''
     = (if truthy_str (cookies b) \<and> isfile (the (cookies b))
        then Some (PStr (the (cookies b))) else None)"
  unfolding download_opts_def build_ytdl_opts_def Let_def
  by (simp add: dict_get_set base_opts_no_cookiefile)

text \<open>
  C2, as amended. After \<open>parse_args\<close> returns, the \<open>cookies\<close> field is \<open>None\<close>, the empty
  string, or a path that was an existing file at parse time. \<open>download_videos\<close> checks the
  path again: the options it builds carry a \<open>cookiefile\<close> entry only for a non-empty path
  that is an existing file at that moment.
\<close>

theorem cookies_checked:
  "(\<forall>a evs. parse_args isfile argv = Inr (a, evs) \<longrightarrow>
       cookies a = None \<or> cookies a = Some [] \<or> (\<exists>p. cookies a = Some p \<and> isfile p))
   \<and> (\<forall>v. dict_get (download_opts isfile2 b) ''cookiefile'' = Some v \<longrightarrow>
       (\<exists>p. cookies b = Some p \<and> v = PStr p \<and> p \<noteq> [] \<and> isfile2 p))"
proof (intro conjI allI impI)
  fix a evs
  assume "parse_args isfile argv = Inr (a, evs)"
  from parse_args_Inr [OF this] obtain n :: "(string list, string) namespace" where
    c: "cookies a = (if truthy_str (cookies n) \<and> \<not> isfile (the (cookies n)) then None else cookies n)"
    by auto
  show "cookies a = None \<or> cookies a = Some [] \<or> (\<exists>p. cookies a = Some p \<and> isfile p)"
    unfolding c by (cases "cookies n") auto
next
  fix v
  assume "dict_get (download_opts isfile2 b) ''cookiefile'' = Some v"
  then show "\<exists>p. cookies b = Some p \<and> v = PStr p \<and> p \<noteq> [] \<and> isfile2 p"
    unfolding download_opts_cookiefile by (cases "cookies b") (auto split: if_splits)
qed

lemma parse_cookies_present:
  "parse_args (\<lambda>p. p = ''cookies.txt'') [''-c'', ''cookies.txt'', ''u'']
   = Inr (\<lparr> urls = [''u''], output_dir = None, cookies = Some ''cookies.txt'',
            langs = [''zh-Hans'', ''zh'', ''zh-CN'', ''en''],
            ffmpeg = None, quiet = False, log_level = ''INFO'', auto_sub = False,
            no_playlist = False, playlist_items = None, write_infojson = False,
            clean_infojson = False \<rparr>, [])"
  by code_simp

lemma parse_cookies_missing:
  "parse_args (\<lambda>p. False) [''-c'', ''cookies.txt'', ''u'']
   = Inr (\<lparr> urls = [''u''], output_dir = None, cookies = None,
            langs = [''zh-Hans'', ''zh'', ''zh-CN'', ''en''],
            ffmpeg = None, quiet = False, log_level = ''INFO'', auto_sub = False,
            no_playlist = False, playlist_items = None, write_infojson = False,
            clean_infojson = False \<rparr>,
          [Logging ''warning''
             ''The specified cookies file does not exist and will be ignored: %s''
             [PStr ''cookies.txt'']])"
  by code_simp

theorem cookies_checked_witness:
  "parse_args (\<lambda>p. p = ''cookies.txt'') [''-c'', ''cookies.txt'', ''u'']
   = Inr (\<lparr> urls = [''u''], output_dir = None, cookies = Some ''cookies.txt'',
            langs = [''zh-Hans'', ''zh'', ''zh-CN'', ''en''],
            ffmpeg = None, quiet = False, log_level = ''INFO'', auto_sub = False,
            no_playlist = False, playlist_items = None, write_infojson = False,
            clean_infojson = False \<rparr>, [])
   \<and> dict_get (download_opts (\<lambda>p. p = ''cookies.txt'') (args0\<lparr>cookies := Some ''cookies.txt''\<rparr>))
        ''cookiefile'' = Some (PStr ''cookies.txt'')
   \<and> dict_get (download_opts (\<lambda>p. False) (args0\<lparr>cookies := Some ''cookies.txt''\<rparr>))
        ''cookiefile'' = None"
proof -
  have 1: "dict_get (download_opts (\<lambda>p. p = ''cookies.txt'') (args0\<lparr>cookies := Some ''cookies.txt''\<rparr>))
        ''cookiefile'' = Some (PStr ''cookies.txt'')"
    by (simp add: download_opts_cookiefile)
  have 2: "dict_get (download_opts (\<lambda>p. False) (args0\<lparr>cookies := Some ''cookies.txt''\<rparr>))
        ''cookiefile'' = None"
    using cookies_checked [of "\<lambda>p. False" "[]" "\<lambda>p. False" "args0\<lparr>cookies := Some ''cookies.txt''\<rparr>"]
    by (cases "dict_get (download_opts (\<lambda>p. False) (args0\<lparr>cookies := Some ''cookies.txt''\<rparr>)) ''cookiefile''")
       auto
  from parse_cookies_present 1 2 show ?thesis by simp
qed

text \<open>
  C2 as stated fails: an empty cookies argument (\<open>--cookies=\<close>) is false in the test of
  line 321, so it stays in the field; it is not \<open>None\<close> and names no file.
\<close>

theorem cookies_empty_string:
  "parse_args (\<lambda>p. False) [''--cookies='', ''u'']
   = Inr (\<lparr> urls = [''u''], output_dir = None, cookies = Some [],
            langs = [''zh-Hans'', ''zh'', ''zh-CN'', ''en''],
            ffmpeg = None, quiet = False, log_level = ''INFO'', auto_sub = False,
            no_playlist = False, playlist_items = None, write_infojson = False,
            clean_infojson = False \<rparr>, [])"
  by code_simp

lemma strip_hd: "strip s \<noteq> [] \<Longrightarrow> \<not> isspace (hd (strip s))"
proof -
  assume n: "strip s \<noteq> []"
  let ?d = "dropWhile isspace s"
  from n have d: "dropWhile isspace (rev ?d) \<noteq> []"
    unfolding strip_def by (simp del: dropWhile_eq_Nil_conv)
  have dn: "?d \<noteq> []"
  proof
    assume "?d = []"
    then have "dropWhile isspace (rev ?d) = []" by (simp del: dropWhile_eq_Nil_conv)
    with d show False by contradiction
  qed
  have "hd (strip s) = last (dropWhile isspace (rev ?d))"
    using d by (simp add: strip_def hd_rev)
  also have "\<dots> = last (rev ?d)"
    using d by (metis last_appendR takeWhile_dropWhile_id)
  also have "\<dots> = hd ?d" using dn by (simp add: last_rev)
  finally show ?thesis using dn hd_dropWhile by metis
qed

lemma strip_last: "strip s \<noteq> [] \<Longrightarrow> \<not> isspace (last (strip s))"
proof -
  assume n: "strip s \<noteq> []"
  let ?d = "dropWhile isspace s"
  from n have d: "dropWhile isspace (rev ?d) \<noteq> []"
    unfolding strip_def by (simp del: dropWhile_eq_Nil_conv)
  have "last (strip s) = hd (dropWhile isspace (rev ?d))"
    using d by (simp add: strip_def last_rev)
  then show ?thesis using d hd_dropWhile by metis
qed

text \<open>
  C3. Whatever the arguments, every element of the \<open>langs\<close> list that \<open>parse_args\<close>
  returns is non-empty and neither starts nor ends with whitespace: the list is the
  comma-separated pieces of the raw string, without those that are empty or only
  whitespace, each stripped.
\<close>

theorem langs_trimmed:
  assumes "parse_args isfile argv = Inr (a, evs)"
  shows "(\<forall>l \<in> set (langs a). l \<noteq> [] \<and> \<not> isspace (hd l) \<and> \<not> isspace (last l))
       \<and> (\<exists>n. argparse argv = Inr n
             \<and> langs a = map strip (filter (\<lambda>s. strip s \<noteq> []) (split CHR '','' (langs n))))"
proof -
  from parse_args_Inr [OF assms] obtain n where
    n: "argparse argv = Inr n"
    "langs a = map strip (filter (\<lambda>s. strip s \<noteq> []) (split CHR '','' (langs n)))" by auto
  have "\<forall>l \<in> set (langs a). l \<noteq> [] \<and> \<not> isspace (hd l) \<and> \<not> isspace (last l)"
    unfolding n(2) by (auto simp: strip_hd strip_last)
  with n show ?thesis by auto
qed

lemma parse_langs_example:
  "parse_args (\<lambda>p. False) [''-l'', '' en, ,fr ,'', ''u'']
   = Inr (\<lparr> urls = [''u''], output_dir = None, cookies = None, langs = [''en'', ''fr''],
            ffmpeg = None, quiet = False, log_level = ''INFO'', auto_sub = False,
            no_playlist = False, playlist_items = None, write_infojson = False,
            clean_infojson = False \<rparr>, [])"
  by code_simp

theorem langs_trimmed_witness:
  "parse_args (\<lambda>p. False) [''-l'', '' en, ,fr ,'', ''u'']
   = Inr (\<lparr> urls = [''u''], output_dir = None, cookies = None, langs = [''en'', ''fr''],
            ffmpeg = None, quiet = False, log_level = ''INFO'', auto_sub = False,
            no_playlist = False, playlist_items = None, write_infojson = False,
            clean_infojson = False \<rparr>, [])
   \<and> \<not> isspace (hd ''en'') \<and> \<not> isspace (last ''en'')
   \<and> \<not> isspace (hd ''fr'') \<and> \<not> isspace (last ''fr'')"
  using langs_trimmed [OF parse_langs_example] parse_langs_example by simp

lemma download_loop_first_call:
  "\<exists>rest. extract_calls (fst (download_loop lib ydl (u # us) failed)) = u # rest"
proof -
  obtain evs0 r0 ydl1 where t: "try_download lib ydl u = (evs0, r0, ydl1)"
    by (cases "try_download lib ydl u") auto
  from try_download_calls [OF t] t show ?thesis
    by (cases r0) (auto simp: extract_calls_append split: prod.splits)
qed

lemma main_fst:
  "fst (main lib isfile isfile2 sys_argv av) =
     (case parse_args isfile (case av of None \<Rightarrow> sys_argv | Some v \<Rightarrow> v) of
        Inl e \<Rightarrow> []
      | Inr (a, evs) \<Rightarrow> evs @ [Ret_parse_args, Call_basicConfig (log_level a)]
                          @ fst (download_videos lib isfile2 (urls a) a))"
  unfolding main_def by (auto split: sum.splits prod.splits)

text \<open>
  C10. \<open>parse_args\<close> never returns an empty URL list: the URLs it returns are argument
  strings, at least one, and otherwise the parser exits (status 2 for an error, as with
  no argument at all; status 0 for \<open>--help\<close>). So whenever \<open>main\<close> gets as far as building the
  options, \<open>extract_info\<close> is called at least once.
\<close>

theorem parse_args_requires_url:
  "(\<forall>a evs. parse_args isfile argv = Inr (a, evs) \<longrightarrow> urls a \<noteq> [] \<and> set (urls a) \<subseteq> set argv)
   \<and> (\<forall>e. parse_args isfile argv = Inl e \<longrightarrow> e = SystemExit 0 \<or> e = SystemExit 2)
   \<and> parse_args isfile [] = Inl (SystemExit 2)
   \<and> (list_ex is_constructor_event (fst (main lib isfile isfile2 sys_argv av)) \<longrightarrow>
        extract_calls (fst (main lib isfile isfile2 sys_argv av)) \<noteq> [])"
proof (intro conjI allI impI)
  fix a evs
  assume p: "parse_args isfile argv = Inr (a, evs)"
  from parse_args_Inr [OF p] obtain n where "argparse argv = Inr n" "urls a = urls n" by auto
  with argparse_urls [of argv n] show "urls a \<noteq> []" and "set (urls a) \<subseteq> set argv" by auto
next
  fix e
  assume "parse_args isfile argv = Inl e"
  from argparse_exit [OF parse_args_Inl [OF this]] show "e = SystemExit 0 \<or> e = SystemExit 2" .
next
  show "parse_args isfile [] = Inl (SystemExit 2)"
    by (simp add: parse_args_def argparse_def defaults_def)
next
  let ?argv = "case av of None \<Rightarrow> sys_argv | Some v \<Rightarrow> v"
  assume c: "list_ex is_constructor_event (fst (main lib isfile isfile2 sys_argv av))"
  show "extract_calls (fst (main lib isfile isfile2 sys_argv av)) \<noteq> []"
  proof (cases "parse_args isfile ?argv")
    case (Inl e)
    with c show ?thesis by (simp add: main_fst)
  next
    case (Inr r)
    obtain a evs where r: "r = (a, evs)" by (cases r)
    from parse_args_Inr [OF Inr [unfolded r]] obtain n where
      n: "argparse ?argv = Inr n" "urls a = urls n" by auto
    with argparse_urls [of ?argv n] have "urls a \<noteq> []" by simp
    then obtain u us where u: "urls a = u # us"
      by (cases "urls a") simp_all
    from download_loop_first_call [of lib "YoutubeDL lib (download_opts isfile2 a)" u us "[]"]
    obtain rest where
      "extract_calls (fst (download_loop lib (YoutubeDL lib (download_opts isfile2 a)) (u # us) [])) = u # rest"
      by auto
    with Inr r u show ?thesis
      by (simp add: main_fst download_videos_fst extract_calls_append)
  qed
qed

lemma parse_two_urls:
  "parse_args (\<lambda>p. False) [''-q'', ''u'', ''v'']
   = Inr (\<lparr> urls = [''u'', ''v''], output_dir = None, cookies = None,
            langs = [''zh-Hans'', ''zh'', ''zh-CN'', ''en''],
            ffmpeg = None, quiet = True, log_level = ''INFO'', auto_sub = False,
            no_playlist = False, playlist_items = None, write_infojson = False,
            clean_infojson = False \<rparr>, [])"
  by code_simp

lemma parse_no_url: "parse_args (\<lambda>p. False) [''-q'', ''-o'', ''dir''] = Inl (SystemExit 2)"
  by code_simp

theorem parse_args_requires_url_witness:
  "parse_args (\<lambda>p. False) [''-q'', ''u'', ''v'']
   = Inr (\<lparr> urls = [''u'', ''v''], output_dir = None, cookies = None,
            langs = [''zh-Hans'', ''zh'', ''zh-CN'', ''en''],
            ffmpeg = None, quiet = True, log_level = ''INFO'', auto_sub = False,
            no_playlist = False, playlist_items = None, write_infojson = False,
            clean_infojson = False \<rparr>, [])
   \<and> [''u'', ''v''] \<noteq> [] \<and> set [''u'', ''v''] \<subseteq> set [''-q'', ''u'', ''v'']
   \<and> parse_args (\<lambda>p. False) [''-q'', ''-o'', ''dir''] = Inl (SystemExit 2)"
  using parse_args_requires_url [of "\<lambda>p. False" "[''-q'', ''u'', ''v'']" lib_demo "\<lambda>p. False" "[]" None]
    parse_two_urls parse_no_url
  by simp

section \<open>Properties of \<open>main\<close>\<close>

lemma setup_first_done: "setup_first True True evs"
proof (induction evs)
  case Nil
  show ?case by simp
next
  case (Cons e evs)
  then show ?case by (cases e) auto
qed

lemma setup_first_log:
  "setup_first parsed built (Logging f m args # evs) = setup_first parsed built evs"
  by simp

lemma follow_block_ok:
  assumes "try_download lib ydl u = (evs0, None, ydl1)"
  shows "results_follow_calls p (evs0 @ rest) = results_follow_calls Idle rest"
  using assms by (auto simp: try_download_def split: prod.splits outcome.splits)

lemma follow_block_failed:
  assumes "try_download lib ydl u = (evs0, Some e, ydl1)"
  shows "results_follow_calls p
           (evs0 @ Logging ''exception'' ''Download failed: %s | URL: %s'' [PExc e, PStr u] # rest)
         = results_follow_calls Idle rest"
  using assms by (auto simp: try_download_def split: prod.splits outcome.splits)

lemma follow_block_interrupted:
  assumes "try_download lib ydl u = (evs0, Some e, ydl1)"
  shows "results_follow_calls p evs0"
  using assms by (auto simp: try_download_def split: prod.splits outcome.splits)

lemma follow_loop:
  assumes "download_loop lib ydl us failed = (evs, r)"
      and "case r of Inl e \<Rightarrow> post = [] | Inr f \<Rightarrow> results_follow_calls Idle post"
  shows "results_follow_calls Idle (evs @ post)"
  using assms
proof (induction us arbitrary: ydl failed evs)
  case Nil
  then show ?case by (auto split: sum.splits)
next
  case (Cons u us)
  obtain evs0 r0 ydl1 where t: "try_download lib ydl u = (evs0, r0, ydl1)"
    by (cases "try_download lib ydl u") auto
  show ?case
  proof (cases r0)
    case None
    obtain evs1 r1 where l: "download_loop lib ydl1 us failed = (evs1, r1)"
      by (cases "download_loop lib ydl1 us failed") auto
    from Cons.prems(1) t None l have e: "evs = evs0 @ evs1" "r = r1" by auto
    from Cons.IH [OF l [unfolded e(2) [symmetric]] Cons.prems(2)]
    show ?thesis unfolding e(1) using follow_block_ok [OF t [unfolded None]] by simp
  next
    case (Some e)
    show ?thesis
    proof (cases "is_Exception e")
      case True
      obtain evs1 r1 where l: "download_loop lib ydl1 us (failed @ [u]) = (evs1, r1)"
        by (cases "download_loop lib ydl1 us (failed @ [u])") auto
      from Cons.prems(1) t Some True l
      have e: "evs = evs0 @ Logging ''exception'' ''Download failed: %s | URL: %s'' [PExc e, PStr u] # evs1"
        "r = r1" by auto
      from Cons.IH [OF l [unfolded e(2) [symmetric]] Cons.prems(2)]
      show ?thesis unfolding e(1) using follow_block_failed [OF t [unfolded Some]] by simp
    next
      case False
      with Cons.prems(1) t Some have e: "evs = evs0" "r = Inl e" by auto
      with Cons.prems(2) have "post = []" by simp
      with e follow_block_interrupted [OF t [unfolded Some]] show ?thesis by simp
    qed
  qed
qed

lemma follow_download_videos: "results_follow_calls Idle (fst (download_videos lib isfile us a))"
proof -
  let ?ydl = "YoutubeDL lib (download_opts isfile a)"
  obtain evs r where l: "download_loop lib ?ydl us [] = (evs, r)"
    by (cases "download_loop lib ?ydl us []") auto
  let ?post = "(case r of
          Inl e \<Rightarrow> []
        | Inr failed \<Rightarrow>
            if failed \<noteq> []
            then [Logging ''warning''
                    (''The following %d URLs failed to download:'' @ [CHR 0x0A] @ ''%s'')
                    [PInt (int (length failed)), PStr (join [CHR 0x0A] failed)]]
            else [])"
  have "case r of Inl e \<Rightarrow> ?post = [] | Inr f \<Rightarrow> results_follow_calls Idle ?post"
    by (auto split: sum.splits)
  from follow_loop [OF l this] show ?thesis
    using l by (simp add: download_videos_fst)
qed

text \<open>
  C8. In every run of \<open>main\<close> the steps come in the order parse, build, call, log: no call
  into the downloader comes before \<open>parse_args\<close> and \<open>build_ytdl_opts\<close> have returned, and
  the result of a URL, success or failure, is logged only after the library calls for
  that URL.
\<close>

theorem main_order:
  "setup_first False False (fst (main lib isfile isfile2 sys_argv av))
   \<and> results_follow_calls Idle (fst (main lib isfile isfile2 sys_argv av))"
proof (cases "parse_args isfile (case av of None \<Rightarrow> sys_argv | Some v \<Rightarrow> v)")
  case (Inl e)
  then show ?thesis by (simp add: main_fst)
next
  case (Inr r)
  obtain a evs where r: "r = (a, evs)" by (cases r)
  from parse_args_Inr [OF Inr [unfolded r]]
  obtain w where evs: "evs = [] \<or> evs = [Logging ''warning''
        ''The specified cookies file does not exist and will be ignored: %s'' [PStr w]]"
    by (auto split: if_splits)
  have 1: "setup_first False False (fst (main lib isfile isfile2 sys_argv av))"
    using evs Inr r by (auto simp: main_fst download_videos_fst setup_first_done)
  have 2: "results_follow_calls Idle (fst (main lib isfile isfile2 sys_argv av))"
    using evs Inr r follow_download_videos [of lib isfile2 "urls a" a]
    by (auto simp: main_fst)
  from 1 2 show ?thesis ..
qed

lemma main_example:
  "fst (main lib_demo (\<lambda>p. False) (\<lambda>p. False) [] (Some [''a'', ''bad''])) =
     [Ret_parse_args, Call_basicConfig ''INFO'',
      Ret_build_ytdl_opts (download_opts (\<lambda>p. False) (args0\<lparr>urls := [''a'', ''bad''],
         langs := [''zh-Hans'', ''zh'', ''zh-CN'', ''en'']\<rparr>)),
      Logging ''debug'' ''ydl_opts: %s''
        [debug_view (download_opts (\<lambda>p. False) (args0\<lparr>urls := [''a'', ''bad''],
         langs := [''zh-Hans'', ''zh'', ''zh-CN'', ''en'']\<rparr>))],
      Call_YoutubeDL (download_opts (\<lambda>p. False) (args0\<lparr>urls := [''a'', ''bad''],
         langs := [''zh-Hans'', ''zh'', ''zh-CN'', ''en'']\<rparr>)),
      Call_extract_info ''a'', Call_prepare_filename (PDict [(''title'', PStr ''a'')]),
      Logging ''info'' ''Downloaded: %s'' [PStr ''a.mp4''],
      Call_extract_info ''bad'',
      Logging ''exception'' ''Download failed: %s | URL: %s''
        [PExc (LibraryError ''DownloadError''), PStr ''bad''],
      Logging ''warning''
        (''The following %d URLs failed to download:'' @ [CHR 0x0A] @ ''%s'')
        [PInt 1, PStr ''bad'']]"
proof -
  have p: "parse_args (\<lambda>p. False) [''a'', ''bad'']
     = Inr (args0\<lparr>urls := [''a'', ''bad''], langs := [''zh-Hans'', ''zh'', ''zh-CN'', ''en'']\<rparr>, [])"
    by code_simp
  have l: "download_loop lib_demo 0 [''a'', ''bad''] [] =
     ([Call_extract_info ''a'', Call_prepare_filename (PDict [(''title'', PStr ''a'')]),
       Logging ''info'' ''Downloaded: %s'' [PStr ''a.mp4''],
       Call_extract_info ''bad'',
       Logging ''exception'' ''Download failed: %s | URL: %s''
         [PExc (LibraryError ''DownloadError''), PStr ''bad'']],
      Inr [''bad''])"
    by (simp add: try_download_def lib_demo_def dict_get_def)
  have y: "\<And>opts. YoutubeDL lib_demo opts = 0" by (simp add: lib_demo_def)
  have m: "fst (main lib_demo (\<lambda>p. False) (\<lambda>p. False) [] (Some [''a'', ''bad''])) =
     [Ret_parse_args, Call_basicConfig ''INFO'']
     @ fst (download_videos lib_demo (\<lambda>p. False) [''a'', ''bad'']
         (args0\<lparr>urls := [''a'', ''bad''], langs := [''zh-Hans'', ''zh'', ''zh-CN'', ''en'']\<rparr>))"
    by (simp add: main_fst p args0_def)
  show ?thesis
    unfolding m download_videos_fst y l by simp
qed

theorem main_order_witness:
  "setup_first False False
     [Ret_parse_args, Call_basicConfig ''INFO'',
      Ret_build_ytdl_opts (download_opts (\<lambda>p. False) (args0\<lparr>urls := [''a'', ''bad''],
         langs := [''zh-Hans'', ''zh'', ''zh-CN'', ''en'']\<rparr>)),
      Logging ''debug'' ''ydl_opts: %s''
        [debug_view (download_opts (\<lambda>p. False) (args0\<lparr>urls := [''a'', ''bad''],
         langs := [''zh-Hans'', ''zh'', ''zh-CN'', ''en'']\<rparr>))],
      Call_YoutubeDL (download_opts (\<lambda>p. False) (args0\<lparr>urls := [''a'', ''bad''],
         langs := [''zh-Hans'', ''zh'', ''zh-CN'', ''en'']\<rparr>)),
      Call_extract_info ''a'', Call_prepare_filename (PDict [(''title'', PStr ''a'')]),
      Logging ''info'' ''Downloaded: %s'' [PStr ''a.mp4''],
      Call_extract_info ''bad'',
      Logging ''exception'' ''Download failed: %s | URL: %s''
        [PExc (LibraryError ''DownloadError''), PStr ''bad''],
      Logging ''warning''
        (''The following %d URLs failed to download:'' @ [CHR 0x0A] @ ''%s'')
        [PInt 1, PStr ''bad'']]
   \<and> \<not> setup_first False False [Call_extract_info ''a'', Ret_parse_args]
   \<and> \<not> results_follow_calls Idle [Logging ''info'' ''Downloaded: %s'' [PStr ''a.mp4''],
          Call_extract_info ''a'']"
  using main_order [of lib_demo "\<lambda>p. False" "\<lambda>p. False" "[]" "Some [''a'', ''bad'']"]
  unfolding main_example by simp

end
